theory Spec2Isabelle
  imports
    Main
    "HOL-Library.Word"
    "HOL-Library.Char_ord"
    "HOL-Library.List_Lexorder"
    "HOL-Library.Sublist"
begin

section \<open>RuntimeStore of the unified data management framework\<close>

text \<open>
  A shallow embedding of \<^verbatim>\<open>framework/manager/store/runtime_store.cpp\<close> and of
  \<^verbatim>\<open>SystemDefinedForm::GetSize\<close>. The store keeps one logical \<^verbatim>\<open>UnifiedData\<close> as
  several entries of a key-value engine. The engine (\<^verbatim>\<open>KvStoreNbDelegate\<close>), the codec
  (\<^verbatim>\<open>TLVUtil\<close>) and the data classes (\<^verbatim>\<open>Runtime\<close>, \<^verbatim>\<open>UnifiedKey\<close>,
  \<^verbatim>\<open>UnifiedRecord\<close>) are not part of these source files: they are parameters of the
  model, records of the operations the store calls on them.
\<close>

subsection \<open>Data model\<close>

text \<open>
  \<^verbatim>\<open>std::string\<close> and \<^verbatim>\<open>std::vector<uint8_t>\<close> are both sequences of bytes. The store
  converts between them by copying the bytes (\<^verbatim>\<open>{ s.begin(), s.end() }\<close>), so both are
  \<^typ>\<open>char list\<close> here (a \<^typ>\<open>char\<close> is one byte) and the conversion is the identity.
\<close>

type_synonym Key = "char list"
type_synonym Value = "char list"
type_synonym Entry = "Key \<times> Value"

text \<open>
  Modelled from the spec: the enumeration \<^verbatim>\<open>Status\<close>, declared outside the source files.
  The specification's taxonomy is \<open>Ok\<close>, \<open>InvalidParameters\<close>, \<open>Unknown\<close>, \<open>DbError\<close>;
  these are the four values that \<^verbatim>\<open>runtime_store.cpp\<close> returns.
\<close>

datatype Status = E_OK | E_INVALID_PARAMETERS | E_UNKNOWN | E_DB_ERROR

text \<open>
  The status of the engine, an enumeration of the engine's own. The store compares it with
  \<^verbatim>\<open>OK\<close> and \<^verbatim>\<open>NOT_FOUND\<close> only; every other code is \<open>DB_OTHER n\<close>.
\<close>

datatype DBStatus = DB_OK | DB_NOT_FOUND | DB_OTHER nat

text \<open>
  What the C++ does besides returning: dereferencing a null \<^verbatim>\<open>shared_ptr\<close>, and
  \<^verbatim>\<open>std::out_of_range\<close> thrown by \<^verbatim>\<open>UD_TYPE_MAP.at\<close>.
\<close>

datatype fault = NullDereference | OutOfRange

text \<open>
  Modelled from the spec: the class \<^verbatim>\<open>UnifiedData\<close>, declared outside the source files,
  "one Runtime block + an ordered sequence of Record values". The store reads it with
  \<^verbatim>\<open>GetRuntime()\<close>, a \<^verbatim>\<open>shared_ptr<Runtime>\<close> that is null until \<^verbatim>\<open>SetRuntime\<close>, and
  \<^verbatim>\<open>GetRecords()\<close>, a vector of \<^verbatim>\<open>shared_ptr<UnifiedRecord>\<close>, each of which may be null
  (\<^verbatim>\<open>Put\<close> tests for it). \<^verbatim>\<open>SetRuntime\<close> replaces the runtime and \<^verbatim>\<open>AddRecord\<close>
  appends a record.
\<close>

record ('rt, 'rec) UnifiedData =
  GetRuntime :: "'rt option"
  GetRecords :: "'rec option list"

text \<open>A default-constructed \<^verbatim>\<open>UnifiedData\<close>.\<close>

definition UnifiedData_new :: "('rt, 'rec) UnifiedData" where
  "UnifiedData_new = \<lparr>GetRuntime = None, GetRecords = []\<rparr>"

text \<open>
  Modelled from the spec: the structure \<^verbatim>\<open>Summary\<close>, declared outside the source files,
  "a mapping from record-kind to cumulative byte size, plus a total byte size". The store
  uses it as a \<^verbatim>\<open>std::map\<close> from kind names to \<^verbatim>\<open>int64_t\<close> and an \<^verbatim>\<open>int64_t\<close> total.
  Sizes are 64-bit words, so that sums wrap as the machine's do. A fresh summary has no
  entry and the total zero.
\<close>

record Summary =
  summary :: "string \<rightharpoonup> 64 word"
  totalSize :: "64 word"

definition Summary_new :: Summary where
  "Summary_new = \<lparr>summary = Map.empty, totalSize = 0\<rparr>"

subsection \<open>External collaborators, as parameters\<close>

text \<open>
  The engine handle \<^verbatim>\<open>kvStore_\<close>. A call takes the engine state and returns the status
  with the new state; \<^verbatim>\<open>GetEntries\<close> is a \<^verbatim>\<open>const\<close> query and returns the status with
  the entries it wrote to its output vector.
\<close>

record 's KvStoreNbDelegate =
  kv_PutBatch :: "Entry list \<Rightarrow> 's \<Rightarrow> DBStatus \<times> 's"
  kv_DeleteBatch :: "Key list \<Rightarrow> 's \<Rightarrow> DBStatus \<times> 's"
  kv_GetEntries :: "Key \<Rightarrow> 's \<Rightarrow> DBStatus \<times> Entry list"

text \<open>
  The codec. \<^verbatim>\<open>TLVUtil::Writing\<close> fills a byte vector and returns false on failure;
  \<^verbatim>\<open>TLVUtil::Reading\<close> fills a \<^verbatim>\<open>Runtime\<close> or a record pointer and returns false on
  failure. A record that was read is not null.
\<close>

record ('rt, 'rec) TLVUtil =
  Writing_record :: "'rec \<Rightarrow> Value option"
  Writing_runtime :: "'rt \<Rightarrow> Value option"
  Reading_runtime :: "Value \<Rightarrow> 'rt option"
  Reading_record :: "Value \<Rightarrow> 'rec option"

text \<open>
  The accessors of the data classes: \<^verbatim>\<open>runtime->key.GetUnifiedKey()\<close>, the field
  \<^verbatim>\<open>runtime->key.key\<close>, \<^verbatim>\<open>record->GetUid()\<close>, \<^verbatim>\<open>record->GetType()\<close>,
  \<^verbatim>\<open>record->GetSize()\<close>, and the table \<^verbatim>\<open>UD_TYPE_MAP\<close>.
\<close>

record ('rt, 'rec, 'ty) DataModel =
  GetUnifiedKey :: "'rt \<Rightarrow> string"
  key_key :: "'rt \<Rightarrow> string"
  GetUid :: "'rec \<Rightarrow> string"
  GetType :: "'rec \<Rightarrow> 'ty"
  GetSize :: "'rec \<Rightarrow> 64 word"
  UD_TYPE_MAP :: "'ty \<rightharpoonup> string"

subsection \<open>RuntimeStore\<close>

definition SLASH_COUNT_IN_KEY :: nat where
  "SLASH_COUNT_IN_KEY = 4"

definition DATA_PREFIX :: string where
  "DATA_PREFIX = ''udmf://''"

text \<open>\<^verbatim>\<open>RuntimeStore::GetEntries\<close>: the status is logged and dropped.\<close>

definition GetEntries :: "'s KvStoreNbDelegate \<Rightarrow> string \<Rightarrow> 's \<Rightarrow> Entry list" where
  "GetEntries kv dataPrefix s = snd (kv_GetEntries kv dataPrefix s)"

text \<open>
  The record loop of \<^verbatim>\<open>RuntimeStore::Put\<close>, with the vector \<^verbatim>\<open>entries\<close> as
  accumulator. \<open>None\<close> is the early return of \<^verbatim>\<open>E_INVALID_PARAMETERS\<close>.
\<close>

fun PutRecords ::
  "('rt, 'rec) TLVUtil \<Rightarrow> ('rt, 'rec, 'ty) DataModel \<Rightarrow> string \<Rightarrow> 'rec option list
    \<Rightarrow> Entry list \<Rightarrow> Entry list option" where
  "PutRecords tlv dm unifiedKey [] entries = Some entries"
| "PutRecords tlv dm unifiedKey (None # rs) entries = PutRecords tlv dm unifiedKey rs entries"
| "PutRecords tlv dm unifiedKey (Some record # rs) entries =
     (case Writing_record tlv record of
        None \<Rightarrow> None
      | Some recordBytes \<Rightarrow>
          PutRecords tlv dm unifiedKey rs
            (entries @ [(unifiedKey @ ''/'' @ GetUid dm record, recordBytes)]))"

definition Put ::
  "'s KvStoreNbDelegate \<Rightarrow> ('rt, 'rec) TLVUtil \<Rightarrow> ('rt, 'rec, 'ty) DataModel
    \<Rightarrow> ('rt, 'rec) UnifiedData \<Rightarrow> 's \<Rightarrow> fault + Status \<times> 's" where
  "Put kv tlv dm unifiedData s =
     (case GetRuntime unifiedData of
        None \<Rightarrow> Inl NullDereference
      | Some runtime \<Rightarrow>
          (let unifiedKey = GetUnifiedKey dm runtime in
           case PutRecords tlv dm unifiedKey (GetRecords unifiedData) [] of
             None \<Rightarrow> Inr (E_INVALID_PARAMETERS, s)
           | Some entries \<Rightarrow>
               (case Writing_runtime tlv runtime of
                  None \<Rightarrow> Inr (E_UNKNOWN, s)
                | Some runtimeBytes \<Rightarrow>
                    (case kv_PutBatch kv (entries @ [(unifiedKey, runtimeBytes)]) s of
                       (status, s') \<Rightarrow>
                         if status \<noteq> DB_OK then Inr (E_DB_ERROR, s') else Inr (E_OK, s')))))"

text \<open>The entry loop of \<^verbatim>\<open>RuntimeStore::Get\<close>; the output object is threaded through.\<close>

fun GetLoop ::
  "('rt, 'rec) TLVUtil \<Rightarrow> string \<Rightarrow> Entry list \<Rightarrow> ('rt, 'rec) UnifiedData
    \<Rightarrow> Status \<times> ('rt, 'rec) UnifiedData" where
  "GetLoop tlv key [] unifiedData = (E_OK, unifiedData)"
| "GetLoop tlv key (entry # rest) unifiedData =
     (if fst entry = key then
        (case Reading_runtime tlv (snd entry) of
           None \<Rightarrow> (E_UNKNOWN, unifiedData)
         | Some runtime \<Rightarrow> GetLoop tlv key rest (unifiedData\<lparr>GetRuntime := Some runtime\<rparr>))
      else
        (case Reading_record tlv (snd entry) of
           None \<Rightarrow> (E_UNKNOWN, unifiedData)
         | Some record \<Rightarrow>
             GetLoop tlv key rest
               (unifiedData\<lparr>GetRecords := GetRecords unifiedData @ [Some record]\<rparr>)))"

definition Get ::
  "'s KvStoreNbDelegate \<Rightarrow> ('rt, 'rec) TLVUtil \<Rightarrow> string \<Rightarrow> ('rt, 'rec) UnifiedData \<Rightarrow> 's
    \<Rightarrow> Status \<times> ('rt, 'rec) UnifiedData" where
  "Get kv tlv key unifiedData s =
     (let entries = GetEntries kv key s in
      if entries = [] then (E_OK, unifiedData) else GetLoop tlv key entries unifiedData)"

text \<open>The record loop of \<^verbatim>\<open>RuntimeStore::GetSummary\<close>.\<close>

fun SummaryLoop ::
  "('rt, 'rec, 'ty) DataModel \<Rightarrow> 'rec option list \<Rightarrow> Summary \<Rightarrow> fault + Summary" where
  "SummaryLoop dm [] sm = Inr sm"
| "SummaryLoop dm (None # rs) sm = Inl NullDereference"
| "SummaryLoop dm (Some record # rs) sm =
     (let recordSize = GetSize dm record in
      case UD_TYPE_MAP dm (GetType dm record) of
        None \<Rightarrow> Inl OutOfRange
      | Some kind \<Rightarrow>
          SummaryLoop dm rs
            (sm\<lparr>summary :=
                  (case summary sm kind of
                     None \<Rightarrow> (summary sm)(kind \<mapsto> recordSize)
                   | Some old \<Rightarrow> (summary sm)(kind \<mapsto> old + recordSize)),
                totalSize := totalSize sm + recordSize\<rparr>))"

definition GetSummary ::
  "'s KvStoreNbDelegate \<Rightarrow> ('rt, 'rec) TLVUtil \<Rightarrow> ('rt, 'rec, 'ty) DataModel \<Rightarrow> string
    \<Rightarrow> Summary \<Rightarrow> 's \<Rightarrow> fault + Status \<times> Summary" where
  "GetSummary kv tlv dm key sm s =
     (case Get kv tlv key UnifiedData_new s of
        (status, unifiedData) \<Rightarrow>
          if status \<noteq> E_OK then Inr (E_DB_ERROR, sm)
          else (case SummaryLoop dm (GetRecords unifiedData) sm of
                  Inl f \<Rightarrow> Inl f
                | Inr sm' \<Rightarrow> Inr (E_OK, sm')))"

definition Delete :: "'s KvStoreNbDelegate \<Rightarrow> string \<Rightarrow> 's \<Rightarrow> Status \<times> 's" where
  "Delete kv key s =
     (let entries = GetEntries kv key s in
      if entries = [] then (E_OK, s)
      else (case kv_DeleteBatch kv (map fst entries) s of
              (status, s') \<Rightarrow> if status \<noteq> DB_OK then (E_DB_ERROR, s') else (E_OK, s')))"

definition Update ::
  "'s KvStoreNbDelegate \<Rightarrow> ('rt, 'rec) TLVUtil \<Rightarrow> ('rt, 'rec, 'ty) DataModel
    \<Rightarrow> ('rt, 'rec) UnifiedData \<Rightarrow> 's \<Rightarrow> fault + Status \<times> 's" where
  "Update kv tlv dm unifiedData s =
     (case GetRuntime unifiedData of
        None \<Rightarrow> Inl NullDereference
      | Some runtime \<Rightarrow>
          (let key = key_key dm runtime in
           case Delete kv key s of
             (st1, s1) \<Rightarrow>
               if st1 \<noteq> E_OK then Inr (E_DB_ERROR, s1)
               else (case Put kv tlv dm unifiedData s1 of
                       Inl f \<Rightarrow> Inl f
                     | Inr (st2, s2) \<Rightarrow>
                         if st2 \<noteq> E_OK then Inr (E_DB_ERROR, s2) else Inr (E_OK, s2))))"

text \<open>
  \<^verbatim>\<open>RuntimeStore::DeleteBatch\<close>: the loop runs over every key and carries the status;
  \<^verbatim>\<open>Delete\<close> is called only while the status is \<^verbatim>\<open>E_OK\<close>.
\<close>

definition DeleteBatch :: "'s KvStoreNbDelegate \<Rightarrow> string list \<Rightarrow> 's \<Rightarrow> Status \<times> 's" where
  "DeleteBatch kv timeoutKeys s =
     (if timeoutKeys = [] then (E_OK, s)
      else foldl (\<lambda>(status, s') timeoutKey.
                    if status = E_OK then Delete kv timeoutKey s' else (status, s'))
             (E_OK, s) timeoutKeys)"

definition Clear :: "'s KvStoreNbDelegate \<Rightarrow> 's \<Rightarrow> Status \<times> 's" where
  "Clear kv s =
     (case Delete kv DATA_PREFIX s of
        (status, s') \<Rightarrow> (if status \<noteq> E_DB_ERROR then E_OK else E_DB_ERROR, s'))"

text \<open>The entry loop of \<^verbatim>\<open>RuntimeStore::GetDatas\<close>, with \<^verbatim>\<open>unifiedDatas\<close> as accumulator.\<close>

fun GetDatasLoop ::
  "'s KvStoreNbDelegate \<Rightarrow> ('rt, 'rec) TLVUtil \<Rightarrow> 's \<Rightarrow> Entry list
    \<Rightarrow> ('rt, 'rec) UnifiedData list \<Rightarrow> ('rt, 'rec) UnifiedData list" where
  "GetDatasLoop kv tlv s [] unifiedDatas = unifiedDatas"
| "GetDatasLoop kv tlv s (entry # rest) unifiedDatas =
     (let keyStr = fst entry in
      if count_list keyStr (CHR ''/'') = SLASH_COUNT_IN_KEY then
        GetDatasLoop kv tlv s rest (unifiedDatas @ [snd (Get kv tlv keyStr UnifiedData_new s)])
      else GetDatasLoop kv tlv s rest unifiedDatas)"

definition GetDatas ::
  "'s KvStoreNbDelegate \<Rightarrow> ('rt, 'rec) TLVUtil \<Rightarrow> string \<Rightarrow> 's \<Rightarrow> ('rt, 'rec) UnifiedData list" where
  "GetDatas kv tlv dataPrefix s =
     (let entries = GetEntries kv dataPrefix s in
      if entries = [] then [] else GetDatasLoop kv tlv s entries [])"

subsection \<open>SystemDefinedForm\<close>

text \<open>
  The fields that \<^verbatim>\<open>SystemDefinedForm::GetSize\<close> reads. \<^verbatim>\<open>formId_\<close> is an \<^verbatim>\<open>int32_t\<close>, so
  \<^verbatim>\<open>sizeof(formId_)\<close> is 4. \<^verbatim>\<open>UnifiedDataUtils::GetDetailsSize\<close> is a parameter. The sum
  is taken in 64 bits.
\<close>

record 'det SystemDefinedForm =
  details :: 'det
  formId :: "32 word"
  formName :: string
  bundleName :: string
  abilityName :: string
  module :: string

definition SystemDefinedForm_GetSize ::
  "('det \<Rightarrow> 64 word) \<Rightarrow> 'det SystemDefinedForm \<Rightarrow> 64 word" where
  "SystemDefinedForm_GetSize GetDetailsSize this =
     GetDetailsSize (details this) + 4 + of_nat (length (formName this))
       + of_nat (length (bundleName this)) + of_nat (length (abilityName this))
       + of_nat (length (module this))"

subsection \<open>The composition that Update is compared with\<close>

text \<open>
  The specification describes \<^verbatim>\<open>Update(data)\<close> as \<^verbatim>\<open>Delete(data.Runtime.key)\<close> followed by
  \<^verbatim>\<open>Put(data)\<close>. This definition follows those words, not the source: the two calls in
  sequence, each returning its own status, the second made when the first returned
  \<^verbatim>\<open>E_OK\<close>.
\<close>

definition Delete_then_Put ::
  "'s KvStoreNbDelegate \<Rightarrow> ('rt, 'rec) TLVUtil \<Rightarrow> ('rt, 'rec, 'ty) DataModel
    \<Rightarrow> ('rt, 'rec) UnifiedData \<Rightarrow> 's \<Rightarrow> fault + Status \<times> 's" where
  "Delete_then_Put kv tlv dm unifiedData s =
     (case GetRuntime unifiedData of
        None \<Rightarrow> Inl NullDereference
      | Some runtime \<Rightarrow>
          (case Delete kv (key_key dm runtime) s of
             (st1, s1) \<Rightarrow>
               if st1 = E_OK then Put kv tlv dm unifiedData s1 else Inr (st1, s1)))"

subsection \<open>The non-null records of a sequence\<close>

fun present :: "'a option list \<Rightarrow> 'a list" where
  "present [] = []"
| "present (None # xs) = present xs"
| "present (Some x # xs) = x # present xs"

subsection \<open>What Get has decoded\<close>

text \<open>
  An entry decodes when the decoder that \<^verbatim>\<open>Get\<close> chooses for it succeeds: the runtime
  decoder for the entry whose key is the requested key, the record decoder for any other.
\<close>

definition decodable :: "('rt, 'rec) TLVUtil \<Rightarrow> string \<Rightarrow> Entry \<Rightarrow> bool" where
  "decodable tlv key entry =
     (if fst entry = key then Reading_runtime tlv (snd entry) \<noteq> None
      else Reading_record tlv (snd entry) \<noteq> None)"

text \<open>
  The output object after the entries \<open>es\<close> have been decoded into it, in their order:
  the runtime is the one decoded last (the old one when no entry has the requested key),
  and one record is appended for every other entry.
\<close>

definition populated ::
  "('rt, 'rec) TLVUtil \<Rightarrow> string \<Rightarrow> Entry list \<Rightarrow> ('rt, 'rec) UnifiedData
    \<Rightarrow> ('rt, 'rec) UnifiedData" where
  "populated tlv key es d =
     d\<lparr>GetRuntime :=
         (case filter (\<lambda>e. fst e = key) es of
            [] \<Rightarrow> GetRuntime d
          | x # xs \<Rightarrow> Reading_runtime tlv (snd (last (x # xs)))),
       GetRecords :=
         GetRecords d @ map (\<lambda>e. Reading_record tlv (snd e)) (filter (\<lambda>e. fst e \<noteq> key) es)\<rparr>"

subsection \<open>The records of one kind\<close>

text \<open>The records whose type the table \<^verbatim>\<open>UD_TYPE_MAP\<close> maps to the given name.\<close>

definition of_kind :: "('rt, 'rec, 'ty) DataModel \<Rightarrow> string \<Rightarrow> 'rec list \<Rightarrow> 'rec list" where
  "of_kind dm kind rs = filter (\<lambda>r. UD_TYPE_MAP dm (GetType dm r) = Some kind) rs"

subsection \<open>A key-value engine\<close>

text \<open>
  Modelled from the spec: the KV Engine, which is outside the repository. The
  specification calls it an ordered key-value store with atomic batch put, batch delete
  and prefix scan. Its state is the list of its entries in strictly increasing key order
  (bytewise lexicographic). A batch either applies as a whole or fails and changes
  nothing; a scan returns the entries whose key starts with the prefix, in key order.
  When a call fails is not the store's business: it is given by three functions of the
  call and the state. A failure may pass: two calls on the same state may be run with
  different such functions.
\<close>

record EngineFaults =
  put_status :: "Entry list \<Rightarrow> Entry list \<Rightarrow> DBStatus"
  delete_status :: "Key list \<Rightarrow> Entry list \<Rightarrow> DBStatus"
  scan_status :: "Key \<Rightarrow> Entry list \<Rightarrow> DBStatus"

fun kv_upsert :: "Entry \<Rightarrow> Entry list \<Rightarrow> Entry list" where
  "kv_upsert e [] = [e]"
| "kv_upsert e (x # xs) =
     (if fst e < fst x then e # x # xs
      else if fst e = fst x then e # xs
      else x # kv_upsert e xs)"

definition engine_PutBatch ::
  "EngineFaults \<Rightarrow> Entry list \<Rightarrow> Entry list \<Rightarrow> DBStatus \<times> Entry list" where
  "engine_PutBatch flt es s =
     (let st = put_status flt es s in
      if st = DB_OK then (DB_OK, fold kv_upsert es s) else (st, s))"

definition engine_DeleteBatch ::
  "EngineFaults \<Rightarrow> Key list \<Rightarrow> Entry list \<Rightarrow> DBStatus \<times> Entry list" where
  "engine_DeleteBatch flt ks s =
     (let st = delete_status flt ks s in
      if st = DB_OK then (DB_OK, filter (\<lambda>e. fst e \<notin> set ks) s) else (st, s))"

definition engine_GetEntries ::
  "EngineFaults \<Rightarrow> Key \<Rightarrow> Entry list \<Rightarrow> DBStatus \<times> Entry list" where
  "engine_GetEntries flt p s =
     (let st = scan_status flt p s; found = filter (\<lambda>e. prefix p (fst e)) s in
      if st \<noteq> DB_OK then (st, [])
      else if found = [] then (DB_NOT_FOUND, [])
      else (DB_OK, found))"

definition engine :: "EngineFaults \<Rightarrow> (Entry list) KvStoreNbDelegate" where
  "engine flt =
     \<lparr>kv_PutBatch = engine_PutBatch flt,
      kv_DeleteBatch = engine_DeleteBatch flt,
      kv_GetEntries = engine_GetEntries flt\<rparr>"

text \<open>
  The states the engine can be in: keys strictly increasing. The empty store is such a
  state, and a batch put or delete leads from such a state to such a state.
\<close>

definition engine_state :: "Entry list \<Rightarrow> bool" where
  "engine_state s = sorted_wrt (<) (map fst s)"

text \<open>
  An engine whose calls all succeed, one whose batch delete fails on one key, one whose
  batch put fails, and one whose scan fails.
\<close>

definition no_faults :: EngineFaults where
  "no_faults =
     \<lparr>put_status = (\<lambda>es s. DB_OK),
      delete_status = (\<lambda>ks s. DB_OK),
      scan_status = (\<lambda>p s. DB_OK)\<rparr>"

definition delete_fails_on :: "Key \<Rightarrow> EngineFaults" where
  "delete_fails_on k =
     \<lparr>put_status = (\<lambda>es s. DB_OK),
      delete_status = (\<lambda>ks s. if k \<in> set ks then DB_OTHER 1 else DB_OK),
      scan_status = (\<lambda>p s. DB_OK)\<rparr>"

definition put_fails :: EngineFaults where
  "put_fails =
     \<lparr>put_status = (\<lambda>es s. DB_OTHER 1),
      delete_status = (\<lambda>ks s. DB_OK),
      scan_status = (\<lambda>p s. DB_OK)\<rparr>"

definition scan_fails :: EngineFaults where
  "scan_fails =
     \<lparr>put_status = (\<lambda>es s. DB_OK),
      delete_status = (\<lambda>ks s. DB_OK),
      scan_status = (\<lambda>p s. DB_OTHER 1)\<rparr>"

subsection \<open>Sample data for evaluating the model\<close>

text \<open>
  A small instance of the parameters. A runtime block is its own key, a record is its own
  uid, its kind is its length and its size is its length. The codec writes a value as its
  own bytes and fails on the empty value.
\<close>

definition sample_tlv :: "(string, string) TLVUtil" where
  "sample_tlv =
     \<lparr>Writing_record = (\<lambda>r. if r = [] then None else Some r),
      Writing_runtime = (\<lambda>r. if r = [] then None else Some r),
      Reading_runtime = (\<lambda>v. if v = [] then None else Some v),
      Reading_record = (\<lambda>v. if v = [] then None else Some v)\<rparr>"

definition sample_dm :: "(string, string, nat) DataModel" where
  "sample_dm =
     \<lparr>GetUnifiedKey = (\<lambda>r. r),
      key_key = (\<lambda>r. r),
      GetUid = (\<lambda>r. r),
      GetType = length,
      GetSize = (\<lambda>r. of_nat (length r)),
      UD_TYPE_MAP = (\<lambda>t. if t = 1 then Some ''one'' else if t = 2 then Some ''two'' else None)\<rparr>"

definition sample_data :: "string \<Rightarrow> string option list \<Rightarrow> (string, string) UnifiedData" where
  "sample_data k rs = \<lparr>GetRuntime = Some k, GetRecords = rs\<rparr>"

text \<open>
  The same with records that are forms: a form is read from its name, its kind is the
  length of the name, and its size is \<^verbatim>\<open>SystemDefinedForm::GetSize\<close> with empty details.
\<close>

definition form_tlv :: "(string, unit SystemDefinedForm) TLVUtil" where
  "form_tlv =
     \<lparr>Writing_record = (\<lambda>r. if formName r = [] then None else Some (formName r)),
      Writing_runtime = (\<lambda>r. if r = [] then None else Some r),
      Reading_runtime = (\<lambda>v. if v = [] then None else Some v),
      Reading_record =
        (\<lambda>v. if v = [] then None
             else Some \<lparr>details = (), formId = 7, formName = v, bundleName = [],
                        abilityName = [], module = []\<rparr>)\<rparr>"

definition form_dm :: "(string, unit SystemDefinedForm, nat) DataModel" where
  "form_dm =
     \<lparr>GetUnifiedKey = (\<lambda>r. r),
      key_key = (\<lambda>r. r),
      GetUid = formName,
      GetType = (\<lambda>r. length (formName r)),
      GetSize = SystemDefinedForm_GetSize (\<lambda>d. 0),
      UD_TYPE_MAP = (\<lambda>t. if t = 1 then Some ''one'' else if t = 2 then Some ''two'' else None)\<rparr>"

section \<open>Properties\<close>

subsection \<open>Put\<close>

lemma PutRecords_None:
  "(\<exists>r. Some r \<in> set rs \<and> Writing_record tlv r = None) \<Longrightarrow> PutRecords tlv dm k rs acc = None"
  by (induction tlv dm k rs acc rule: PutRecords.induct) (auto split: option.splits)

lemma PutRecords_Some:
  "(\<forall>r. Some r \<in> set rs \<longrightarrow> Writing_record tlv r \<noteq> None) \<Longrightarrow>
   PutRecords tlv dm k rs acc =
     Some (acc @ map (\<lambda>r. (k @ ''/'' @ GetUid dm r, the (Writing_record tlv r))) (present rs))"
  by (induction tlv dm k rs acc rule: PutRecords.induct) (auto split: option.splits)

lemma present_filter: "present (filter (\<lambda>r. r \<noteq> None) rs) = present rs"
  by (induction rs rule: present.induct) auto

lemma length_present: "length (present rs) = length (filter (\<lambda>r. r \<noteq> None) rs)"
  by (induction rs rule: present.induct) auto

lemma present_map_Some: "present (map Some xs) = xs"
  by (induction xs) auto

text \<open>
  The batch that \<^verbatim>\<open>Put\<close> hands to the engine when everything encodes: one entry for each
  non-null record, in the order of the records, then the entry of the runtime block.
\<close>

lemma Put_unfold:
  assumes "GetRuntime d = Some rt"
  shows "Put kv tlv dm d s =
     (if \<exists>r. Some r \<in> set (GetRecords d) \<and> Writing_record tlv r = None
        then Inr (E_INVALID_PARAMETERS, s)
      else if Writing_runtime tlv rt = None then Inr (E_UNKNOWN, s)
      else let batch =
                 map (\<lambda>r. (GetUnifiedKey dm rt @ ''/'' @ GetUid dm r, the (Writing_record tlv r)))
                   (present (GetRecords d))
                 @ [(GetUnifiedKey dm rt, the (Writing_runtime tlv rt))]
           in if fst (kv_PutBatch kv batch s) \<noteq> DB_OK
                then Inr (E_DB_ERROR, snd (kv_PutBatch kv batch s))
              else Inr (E_OK, snd (kv_PutBatch kv batch s)))"
proof (cases "\<exists>r. Some r \<in> set (GetRecords d) \<and> Writing_record tlv r = None")
  case True
  then show ?thesis using assms
    by (simp add: Put_def PutRecords_None[OF True])
next
  case False
  then have "\<forall>r. Some r \<in> set (GetRecords d) \<longrightarrow> Writing_record tlv r \<noteq> None" by simp
  then have "PutRecords tlv dm (GetUnifiedKey dm rt) (GetRecords d) [] =
      Some (map (\<lambda>r. (GetUnifiedKey dm rt @ ''/'' @ GetUid dm r, the (Writing_record tlv r)))
              (present (GetRecords d)))"
    by (simp add: PutRecords_Some)
  with False assms show ?thesis
    by (auto simp: Put_def Let_def split: option.splits prod.splits)
qed

lemma Put_returns:
  "GetRuntime d = Some rt \<Longrightarrow> \<exists>st s'. Put kv tlv dm d s = Inr (st, s')"
  by (simp add: Put_unfold Let_def)

text \<open>
  Claim C2. For a \<^verbatim>\<open>UnifiedData\<close> whose runtime is set: when some (non-null) record does
  not encode, \<^verbatim>\<open>Put\<close> returns \<^verbatim>\<open>E_INVALID_PARAMETERS\<close> and the engine state is the one it
  was called with, whatever the engine is, so no write was made; when every record encodes
  and the runtime block does not, it returns \<^verbatim>\<open>E_UNKNOWN\<close>, the state again unchanged;
  otherwise the batch is written, and \<^verbatim>\<open>Put\<close> returns \<^verbatim>\<open>E_DB_ERROR\<close> when the engine's
  status is not \<^verbatim>\<open>OK\<close> and \<^verbatim>\<open>E_OK\<close> when it is.
\<close>

theorem Put_status:
  assumes "GetRuntime d = Some rt"
  shows "Put kv tlv dm d s =
     (if \<exists>r. Some r \<in> set (GetRecords d) \<and> Writing_record tlv r = None
        then Inr (E_INVALID_PARAMETERS, s)
      else if Writing_runtime tlv rt = None then Inr (E_UNKNOWN, s)
      else let written =
                 kv_PutBatch kv
                   (map (\<lambda>r. (GetUnifiedKey dm rt @ ''/'' @ GetUid dm r,
                              the (Writing_record tlv r)))
                      (present (GetRecords d))
                    @ [(GetUnifiedKey dm rt, the (Writing_runtime tlv rt))]) s
           in if fst written \<noteq> DB_OK then Inr (E_DB_ERROR, snd written)
              else Inr (E_OK, snd written))"
  using Put_unfold[OF assms, of kv tlv dm s] by (simp add: Let_def)

theorem Put_status_witness:
  "Put (engine no_faults) sample_tlv sample_dm (sample_data ''k'' [Some ''a'', Some '''']) []
     = Inr (E_INVALID_PARAMETERS, []) \<and>
   Put (engine no_faults) sample_tlv sample_dm (sample_data '''' [Some ''a'']) []
     = Inr (E_UNKNOWN, []) \<and>
   Put (engine put_fails) sample_tlv sample_dm (sample_data ''k'' [Some ''a'']) []
     = Inr (E_DB_ERROR, []) \<and>
   Put (engine no_faults) sample_tlv sample_dm (sample_data ''k'' [Some ''a'']) []
     = Inr (E_OK, [(''k'', ''k''), (''k/a'', ''a'')])"
proof -
  have h: "GetRuntime (sample_data k rs) = Some k" for k rs
    by (simp add: sample_data_def)
  have 1: "Put (engine no_faults) sample_tlv sample_dm (sample_data ''k'' [Some ''a'', Some '''']) []
     = Inr (E_INVALID_PARAMETERS, [])"
    using Put_status[OF h, of "engine no_faults" sample_tlv sample_dm "''k''" "[Some ''a'', Some '''']" "[]"]
    by (simp add: sample_data_def sample_tlv_def)
  have 2: "Put (engine no_faults) sample_tlv sample_dm (sample_data '''' [Some ''a'']) []
     = Inr (E_UNKNOWN, [])"
    using Put_status[OF h, of "engine no_faults" sample_tlv sample_dm "''''" "[Some ''a'']" "[]"]
    by (simp add: sample_data_def sample_tlv_def)
  have 3: "Put (engine put_fails) sample_tlv sample_dm (sample_data ''k'' [Some ''a'']) []
     = Inr (E_DB_ERROR, [])"
    using Put_status[OF h, of "engine put_fails" sample_tlv sample_dm "''k''" "[Some ''a'']" "[]"]
    by (simp add: sample_data_def sample_tlv_def sample_dm_def engine_def engine_PutBatch_def
          put_fails_def)
  have 4: "Put (engine no_faults) sample_tlv sample_dm (sample_data ''k'' [Some ''a'']) []
     = Inr (E_OK, [(''k'', ''k''), (''k/a'', ''a'')])"
    using Put_status[OF h, of "engine no_faults" sample_tlv sample_dm "''k''" "[Some ''a'']" "[]"]
    by (simp add: sample_data_def sample_tlv_def sample_dm_def engine_def engine_PutBatch_def
          no_faults_def)
  from 1 2 3 4 show ?thesis by simp
qed

subsection \<open>Get\<close>

lemma GetLoop_decodable:
  "\<forall>e\<in>set es. decodable tlv key e \<Longrightarrow> GetLoop tlv key es d = (E_OK, populated tlv key es d)"
proof (induction es arbitrary: d)
  case Nil
  then show ?case by (simp add: populated_def)
next
  case (Cons e es)
  then have rest: "\<forall>x\<in>set es. decodable tlv key x" and e: "decodable tlv key e" by simp_all
  show ?case
  proof (cases "fst e = key")
    case True
    with e obtain rt where rt: "Reading_runtime tlv (snd e) = Some rt"
      by (auto simp: decodable_def)
    show ?thesis using True rt Cons.IH[OF rest]
      by (simp add: populated_def split: list.splits)
  next
    case False
    with e obtain r where r: "Reading_record tlv (snd e) = Some r"
      by (auto simp: decodable_def)
    show ?thesis using False r Cons.IH[OF rest]
      by (simp add: populated_def split: list.splits)
  qed
qed

lemma GetLoop_append:
  "GetLoop tlv key (pre @ post) d =
     (if fst (GetLoop tlv key pre d) = E_OK then GetLoop tlv key post (snd (GetLoop tlv key pre d))
      else GetLoop tlv key pre d)"
  by (induction pre arbitrary: d) (auto split: option.splits)

lemma GetLoop_undecodable:
  "\<not> decodable tlv key e \<Longrightarrow> GetLoop tlv key (e # post) d = (E_UNKNOWN, d)"
  by (auto simp: decodable_def)

lemma Get_first_undecodable:
  assumes "GetEntries kv key s = pre @ e # post" and "\<forall>x\<in>set pre. decodable tlv key x"
    and "\<not> decodable tlv key e"
  shows "Get kv tlv key d s = (E_UNKNOWN, populated tlv key pre d)"
proof -
  from assms(2) have "GetLoop tlv key pre d = (E_OK, populated tlv key pre d)"
    by (simp add: GetLoop_decodable)
  moreover have "GetLoop tlv key (e # post) (populated tlv key pre d)
      = (E_UNKNOWN, populated tlv key pre d)"
    using assms(3) by (rule GetLoop_undecodable)
  ultimately have "GetLoop tlv key (pre @ e # post) d = (E_UNKNOWN, populated tlv key pre d)"
    by (simp add: GetLoop_append del: GetLoop.simps)
  with assms(1) show ?thesis
    by (simp add: Get_def)
qed

text \<open>
  Claim C3. When the scan for the key returns no entries, \<^verbatim>\<open>Get\<close> returns \<^verbatim>\<open>E_OK\<close> and
  the output object is the one it was given. When some returned entry does not decode
  (decoded as runtime when its key is the requested key, as record otherwise), \<^verbatim>\<open>Get\<close>
  returns \<^verbatim>\<open>E_UNKNOWN\<close>. It returns at the first such entry \<open>e\<close>: the output then holds
  what the entries before \<open>e\<close> decoded to, in scan order, and nothing of the entries
  after it.
\<close>

theorem Get_status:
  "(GetEntries kv key s = [] \<longrightarrow> Get kv tlv key d s = (E_OK, d)) \<and>
   ((\<exists>x\<in>set (GetEntries kv key s). \<not> decodable tlv key x)
    \<longrightarrow> fst (Get kv tlv key d s) = E_UNKNOWN) \<and>
   (GetEntries kv key s = pre @ e # post \<and> (\<forall>x\<in>set pre. decodable tlv key x)
      \<and> \<not> decodable tlv key e
    \<longrightarrow> Get kv tlv key d s = (E_UNKNOWN, populated tlv key pre d))"
proof (intro conjI impI)
  assume "GetEntries kv key s = []"
  then show "Get kv tlv key d s = (E_OK, d)" by (simp add: Get_def)
next
  assume "\<exists>x\<in>set (GetEntries kv key s). \<not> decodable tlv key x"
  then obtain ys x zs where 1: "GetEntries kv key s = ys @ x # zs"
    and 2: "\<not> decodable tlv key x" and "\<forall>y\<in>set ys. \<not> \<not> decodable tlv key y"
    by (rule split_list_first_propE)
  then have 3: "\<forall>y\<in>set ys. decodable tlv key y" by blast
  from 1 3 2 have "Get kv tlv key d s = (E_UNKNOWN, populated tlv key ys d)"
    by (rule Get_first_undecodable)
  then show "fst (Get kv tlv key d s) = E_UNKNOWN" by simp
next
  assume a: "GetEntries kv key s = pre @ e # post \<and> (\<forall>x\<in>set pre. decodable tlv key x)
      \<and> \<not> decodable tlv key e"
  then have 1: "GetEntries kv key s = pre @ e # post"
    and 2: "\<forall>x\<in>set pre. decodable tlv key x" and 3: "\<not> decodable tlv key e"
    by blast+
  from 1 2 3 show "Get kv tlv key d s = (E_UNKNOWN, populated tlv key pre d)"
    by (rule Get_first_undecodable)
qed

theorem Get_status_witness:
  "Get (engine no_faults) sample_tlv ''k'' (sample_data ''old'' [Some ''x'']) []
     = (E_OK, sample_data ''old'' [Some ''x'']) \<and>
   Get (engine no_faults) sample_tlv ''k'' UnifiedData_new
       [(''k'', ''k''), (''k/a'', ''a''), (''k/b'', ''''), (''k/c'', ''c'')]
     = (E_UNKNOWN, \<lparr>GetRuntime = Some ''k'', GetRecords = [Some ''a'']\<rparr>)"
proof -
  have 1: "GetEntries (engine no_faults) ''k'' [] = []"
    by (simp add: GetEntries_def engine_def engine_GetEntries_def no_faults_def)
  have 2: "GetEntries (engine no_faults) ''k''
             [(''k'', ''k''), (''k/a'', ''a''), (''k/b'', ''''), (''k/c'', ''c'')]
           = [(''k'', ''k''), (''k/a'', ''a'')] @ (''k/b'', '''') # [(''k/c'', ''c'')]
         \<and> (\<forall>x\<in>set [(''k'', ''k''), (''k/a'', ''a'')]. decodable sample_tlv ''k'' x)
         \<and> \<not> decodable sample_tlv ''k'' (''k/b'', '''')"
    by (simp add: GetEntries_def engine_def engine_GetEntries_def no_faults_def
          decodable_def sample_tlv_def)
  have 3: "populated sample_tlv ''k'' [(''k'', ''k''), (''k/a'', ''a'')] UnifiedData_new
           = \<lparr>GetRuntime = Some ''k'', GetRecords = [Some ''a'']\<rparr>"
    by (simp add: populated_def sample_tlv_def UnifiedData_new_def)
  from Get_status[where kv = "engine no_faults" and key = "''k''" and s = "[]"
      and tlv = sample_tlv and d = "sample_data ''old'' [Some ''x'']"] 1
  have a: "Get (engine no_faults) sample_tlv ''k'' (sample_data ''old'' [Some ''x'']) []
     = (E_OK, sample_data ''old'' [Some ''x''])"
    by simp
  from Get_status[where kv = "engine no_faults" and key = "''k''"
      and s = "[(''k'', ''k''), (''k/a'', ''a''), (''k/b'', ''''), (''k/c'', ''c'')]"
      and pre = "[(''k'', ''k''), (''k/a'', ''a'')]" and e = "(''k/b'', '''')"
      and post = "[(''k/c'', ''c'')]" and tlv = sample_tlv and d = UnifiedData_new] 2
  have b: "Get (engine no_faults) sample_tlv ''k'' UnifiedData_new
       [(''k'', ''k''), (''k/a'', ''a''), (''k/b'', ''''), (''k/c'', ''c'')]
     = (E_UNKNOWN, populated sample_tlv ''k'' [(''k'', ''k''), (''k/a'', ''a'')] UnifiedData_new)"
    by blast
  from a b 3 show ?thesis by simp
qed

subsection \<open>DeleteBatch\<close>

lemma DeleteBatch_loop_stuck:
  "st \<noteq> E_OK \<Longrightarrow>
   foldl (\<lambda>(status, s') timeoutKey.
            if status = E_OK then Delete kv timeoutKey s' else (status, s')) (st, s) ks = (st, s)"
  by (induction ks) auto

lemma DeleteBatch_foldl:
  "DeleteBatch kv ks s =
     foldl (\<lambda>(status, s') timeoutKey.
              if status = E_OK then Delete kv timeoutKey s' else (status, s')) (E_OK, s) ks"
  by (simp add: DeleteBatch_def)

text \<open>
  Claim C5. \<^verbatim>\<open>DeleteBatch\<close> returns \<^verbatim>\<open>E_OK\<close> on the empty list and leaves the engine
  alone. On a list \<open>k # ks\<close>: when \<^verbatim>\<open>Delete\<close> of \<open>k\<close> returns \<^verbatim>\<open>E_OK\<close>, the
  result is that of the rest of the list run on the state \<^verbatim>\<open>Delete\<close> left; when it
  returns another status, that status is the result and the state \<^verbatim>\<open>Delete\<close> left is the
  final state for every \<open>ks\<close>, so no later key is deleted. Hence, when the keys \<open>pre\<close>
  are deleted with \<^verbatim>\<open>E_OK\<close> and \<^verbatim>\<open>Delete\<close> of the next key \<open>k\<close> fails, the result is
  the status of that first failure and the state it left, whatever keys \<open>post\<close> follow.
\<close>

theorem DeleteBatch_short_circuit:
  "DeleteBatch kv [] s = (E_OK, s) \<and>
   (Delete kv k s = (E_OK, s') \<longrightarrow> DeleteBatch kv (k # ks) s = DeleteBatch kv ks s') \<and>
   (Delete kv k s = (st, s') \<and> st \<noteq> E_OK \<longrightarrow> DeleteBatch kv (k # ks) s = (st, s')) \<and>
   (DeleteBatch kv pre s = (E_OK, s1) \<and> Delete kv k s1 = (st, s2) \<and> st \<noteq> E_OK
      \<longrightarrow> DeleteBatch kv (pre @ k # post) s = (st, s2))"
proof (intro conjI impI)
  show "DeleteBatch kv [] s = (E_OK, s)" by (simp add: DeleteBatch_def)
next
  assume "Delete kv k s = (E_OK, s')"
  then show "DeleteBatch kv (k # ks) s = DeleteBatch kv ks s'"
    by (simp add: DeleteBatch_def)
next
  assume "Delete kv k s = (st, s') \<and> st \<noteq> E_OK"
  then show "DeleteBatch kv (k # ks) s = (st, s')"
    by (simp add: DeleteBatch_def DeleteBatch_loop_stuck)
next
  assume "DeleteBatch kv pre s = (E_OK, s1) \<and> Delete kv k s1 = (st, s2) \<and> st \<noteq> E_OK"
  then show "DeleteBatch kv (pre @ k # post) s = (st, s2)"
    by (simp add: DeleteBatch_foldl DeleteBatch_loop_stuck)
qed

theorem DeleteBatch_short_circuit_witness:
  "DeleteBatch (engine (delete_fails_on ''k2'')) [''k1'', ''k2'', ''k3'']
     [(''k1'', ''a''), (''k2'', ''b''), (''k3'', ''c'')]
   = (E_DB_ERROR, [(''k2'', ''b''), (''k3'', ''c'')]) \<and>
   DeleteBatch (engine (delete_fails_on ''k2'')) ([''k1''] @ ''k2'' # [''k3''])
     [(''k1'', ''a''), (''k2'', ''b''), (''k3'', ''c'')]
   = (E_DB_ERROR, [(''k2'', ''b''), (''k3'', ''c'')])"
proof -
  let ?kv = "engine (delete_fails_on ''k2'')"
  have d1: "Delete ?kv ''k1'' [(''k1'', ''a''), (''k2'', ''b''), (''k3'', ''c'')]
            = (E_OK, [(''k2'', ''b''), (''k3'', ''c'')])"
    by (simp add: Delete_def GetEntries_def engine_def engine_GetEntries_def
          engine_DeleteBatch_def delete_fails_on_def)
  have d2: "Delete ?kv ''k2'' [(''k2'', ''b''), (''k3'', ''c'')]
            = (E_DB_ERROR, [(''k2'', ''b''), (''k3'', ''c'')]) \<and> E_DB_ERROR \<noteq> E_OK"
    by (simp add: Delete_def GetEntries_def engine_def engine_GetEntries_def
          engine_DeleteBatch_def delete_fails_on_def)
  from DeleteBatch_short_circuit[where kv = ?kv and k = "''k1''" and ks = "[''k2'', ''k3'']"
      and s = "[(''k1'', ''a''), (''k2'', ''b''), (''k3'', ''c'')]"
      and s' = "[(''k2'', ''b''), (''k3'', ''c'')]"] d1
  have "DeleteBatch ?kv [''k1'', ''k2'', ''k3''] [(''k1'', ''a''), (''k2'', ''b''), (''k3'', ''c'')]
        = DeleteBatch ?kv [''k2'', ''k3''] [(''k2'', ''b''), (''k3'', ''c'')]"
    by blast
  also from DeleteBatch_short_circuit[where kv = ?kv and k = "''k2''" and ks = "[''k3'']"
      and s = "[(''k2'', ''b''), (''k3'', ''c'')]" and st = E_DB_ERROR
      and s' = "[(''k2'', ''b''), (''k3'', ''c'')]"] d2
  have "\<dots> = (E_DB_ERROR, [(''k2'', ''b''), (''k3'', ''c'')])"
    by blast
  finally have a: "DeleteBatch ?kv [''k1'', ''k2'', ''k3'']
      [(''k1'', ''a''), (''k2'', ''b''), (''k3'', ''c'')]
    = (E_DB_ERROR, [(''k2'', ''b''), (''k3'', ''c'')])" .
  have p: "DeleteBatch ?kv [''k1''] [(''k1'', ''a''), (''k2'', ''b''), (''k3'', ''c'')]
           = (E_OK, [(''k2'', ''b''), (''k3'', ''c'')])"
    using d1 by (simp add: DeleteBatch_def)
  from DeleteBatch_short_circuit[where kv = ?kv and pre = "[''k1'']" and k = "''k2''"
      and post = "[''k3'']" and s = "[(''k1'', ''a''), (''k2'', ''b''), (''k3'', ''c'')]"
      and ?s1.0 = "[(''k2'', ''b''), (''k3'', ''c'')]" and st = E_DB_ERROR
      and ?s2.0 = "[(''k2'', ''b''), (''k3'', ''c'')]"] p d2
  have b: "DeleteBatch ?kv ([''k1''] @ ''k2'' # [''k3''])
      [(''k1'', ''a''), (''k2'', ''b''), (''k3'', ''c'')]
    = (E_DB_ERROR, [(''k2'', ''b''), (''k3'', ''c'')])"
    by blast
  from a b show ?thesis by (rule conjI)
qed

subsection \<open>GetDatas\<close>

lemma GetDatasLoop_eq:
  "GetDatasLoop kv tlv s es acc =
     acc @ map (\<lambda>e. snd (Get kv tlv (fst e) UnifiedData_new s))
             (filter (\<lambda>e. count_list (fst e) (CHR ''/'') = 4) es)"
  by (induction es arbitrary: acc) (auto simp: Let_def SLASH_COUNT_IN_KEY_def)

text \<open>
  Claim C7. \<^verbatim>\<open>GetDatas\<close> returns one element for each scanned entry whose key holds
  exactly four \<open>/\<close> characters, in scan order, and none for any other entry, so none for
  a member key with five. The element is the object that \<^verbatim>\<open>Get\<close> of that key filled,
  starting from an empty one, whatever status \<^verbatim>\<open>Get\<close> returned.
\<close>

theorem GetDatas_filter:
  "GetDatas kv tlv dataPrefix s =
     map (\<lambda>e. snd (Get kv tlv (fst e) UnifiedData_new s))
       (filter (\<lambda>e. count_list (fst e) (CHR ''/'') = 4) (GetEntries kv dataPrefix s))"
  by (simp add: GetDatas_def GetDatasLoop_eq Let_def)

theorem GetDatas_filter_witness:
  "GetDatas (engine no_faults) sample_tlv ''u://''
     [(''u://a/b/c'', ''u://a/b/c''), (''u://a/b/c/r'', ''r''), (''u://a/b/d'', [])]
   = [\<lparr>GetRuntime = Some ''u://a/b/c'', GetRecords = [Some ''r'']\<rparr>,
      \<lparr>GetRuntime = None, GetRecords = []\<rparr>]"
  using GetDatas_filter[of "engine no_faults" sample_tlv "''u://''"
      "[(''u://a/b/c'', ''u://a/b/c''), (''u://a/b/c/r'', ''r''), (''u://a/b/d'', [])]"]
  by (simp add: GetEntries_def engine_def engine_GetEntries_def no_faults_def Get_def
        sample_tlv_def UnifiedData_new_def)

subsection \<open>Null records in Put\<close>

lemma PutRecords_filter:
  "PutRecords tlv dm k (filter (\<lambda>r. r \<noteq> None) rs) acc = PutRecords tlv dm k rs acc"
  by (induction tlv dm k rs acc rule: PutRecords.induct) (auto split: option.splits)

text \<open>
  Claim C9. \<^verbatim>\<open>Put\<close> does on a \<^verbatim>\<open>UnifiedData\<close> what it does on the same object with the
  null records removed: a null record neither fails the call nor adds an entry. When the
  runtime is set and everything encodes, the batch handed to the engine is the entries of
  the non-null records, in their order, followed by the runtime entry; its length is the
  number of non-null records plus one.
\<close>

theorem Put_skips_null_records:
  "Put kv tlv dm d s = Put kv tlv dm (d\<lparr>GetRecords := filter (\<lambda>r. r \<noteq> None) (GetRecords d)\<rparr>) s \<and>
   (GetRuntime d = Some rt
      \<and> (\<forall>r. Some r \<in> set (GetRecords d) \<longrightarrow> Writing_record tlv r \<noteq> None)
      \<and> Writing_runtime tlv rt \<noteq> None
    \<longrightarrow> (\<exists>batch.
           batch = map (\<lambda>r. (GetUnifiedKey dm rt @ ''/'' @ GetUid dm r, the (Writing_record tlv r)))
                     (present (GetRecords d))
                   @ [(GetUnifiedKey dm rt, the (Writing_runtime tlv rt))]
           \<and> length batch = length (filter (\<lambda>r. r \<noteq> None) (GetRecords d)) + 1
           \<and> Put kv tlv dm d s =
               Inr (if fst (kv_PutBatch kv batch s) \<noteq> DB_OK then E_DB_ERROR else E_OK,
                    snd (kv_PutBatch kv batch s))))"
proof (intro conjI impI)
  show "Put kv tlv dm d s
        = Put kv tlv dm (d\<lparr>GetRecords := filter (\<lambda>r. r \<noteq> None) (GetRecords d)\<rparr>) s"
    by (cases "GetRuntime d") (simp_all add: Put_def PutRecords_filter del: not_None_eq)
next
  assume a: "GetRuntime d = Some rt
      \<and> (\<forall>r. Some r \<in> set (GetRecords d) \<longrightarrow> Writing_record tlv r \<noteq> None)
      \<and> Writing_runtime tlv rt \<noteq> None"
  then have rt: "GetRuntime d = Some rt" by simp
  show "\<exists>batch.
           batch = map (\<lambda>r. (GetUnifiedKey dm rt @ ''/'' @ GetUid dm r, the (Writing_record tlv r)))
                     (present (GetRecords d))
                   @ [(GetUnifiedKey dm rt, the (Writing_runtime tlv rt))]
           \<and> length batch = length (filter (\<lambda>r. r \<noteq> None) (GetRecords d)) + 1
           \<and> Put kv tlv dm d s =
               Inr (if fst (kv_PutBatch kv batch s) \<noteq> DB_OK then E_DB_ERROR else E_OK,
                    snd (kv_PutBatch kv batch s))"
    using a Put_unfold[OF rt, of kv tlv dm s]
    by (simp add: Let_def length_present)
qed

theorem Put_skips_null_records_witness:
  "Put (engine no_faults) sample_tlv sample_dm (sample_data ''k'' [None, Some ''a'', None]) []
     = Put (engine no_faults) sample_tlv sample_dm (sample_data ''k'' [Some ''a'']) [] \<and>
   Put (engine no_faults) sample_tlv sample_dm (sample_data ''k'' [None, Some ''a'', None]) []
     = Inr (E_OK, [(''k'', ''k''), (''k/a'', ''a'')])"
proof -
  let ?d = "sample_data ''k'' [None, Some ''a'', None]"
  have h: "GetRuntime ?d = Some ''k''
      \<and> (\<forall>r. Some r \<in> set (GetRecords ?d) \<longrightarrow> Writing_record sample_tlv r \<noteq> None)
      \<and> Writing_runtime sample_tlv ''k'' \<noteq> None"
    by (simp add: sample_data_def sample_tlv_def)
  have f: "?d\<lparr>GetRecords := filter (\<lambda>r. r \<noteq> None) (GetRecords ?d)\<rparr> = sample_data ''k'' [Some ''a'']"
    by (simp add: sample_data_def)
  note t = Put_skips_null_records[where kv = "engine no_faults" and tlv = sample_tlv
      and dm = sample_dm and d = ?d and s = "[]" and rt = "''k''"]
  from t f have 1: "Put (engine no_faults) sample_tlv sample_dm ?d []
     = Put (engine no_faults) sample_tlv sample_dm (sample_data ''k'' [Some ''a'']) []"
    by simp
  from t h obtain batch where
    b: "batch = map (\<lambda>r. (GetUnifiedKey sample_dm ''k'' @ ''/'' @ GetUid sample_dm r,
                           the (Writing_record sample_tlv r))) (present (GetRecords ?d))
                @ [(GetUnifiedKey sample_dm ''k'', the (Writing_runtime sample_tlv ''k''))]"
    and p: "Put (engine no_faults) sample_tlv sample_dm ?d [] =
               Inr (if fst (kv_PutBatch (engine no_faults) batch []) \<noteq> DB_OK
                    then E_DB_ERROR else E_OK,
                    snd (kv_PutBatch (engine no_faults) batch []))"
    by blast
  from b have "batch = [(''k/a'', ''a''), (''k'', ''k'')]"
    by (simp add: sample_data_def sample_tlv_def sample_dm_def)
  with p have 2: "Put (engine no_faults) sample_tlv sample_dm ?d []
     = Inr (E_OK, [(''k'', ''k''), (''k/a'', ''a'')])"
    by (simp add: engine_def engine_PutBatch_def no_faults_def)
  from 1 2 show ?thesis by simp
qed

subsection \<open>Update\<close>

text \<open>
  Claim C10. \<^verbatim>\<open>Update\<close> returns no status other than \<^verbatim>\<open>E_OK\<close> and \<^verbatim>\<open>E_DB_ERROR\<close>
  (it does not return at all when the runtime pointer is null, which it dereferences). A
  failed \<^verbatim>\<open>Delete\<close> is returned as \<^verbatim>\<open>E_DB_ERROR\<close>, and so is every status of \<^verbatim>\<open>Put\<close>
  other than \<^verbatim>\<open>E_OK\<close>: in particular, after a successful \<^verbatim>\<open>Delete\<close>, a record that does
  not encode (where \<^verbatim>\<open>Put\<close> says \<^verbatim>\<open>E_INVALID_PARAMETERS\<close>) and a runtime block that does
  not encode (where \<^verbatim>\<open>Put\<close> says \<^verbatim>\<open>E_UNKNOWN\<close>) both make \<^verbatim>\<open>Update\<close> return
  \<^verbatim>\<open>E_DB_ERROR\<close>.
\<close>

theorem Update_status:
  "((\<exists>s'. Update kv tlv dm d s = Inr (E_OK, s'))
      \<or> (\<exists>s'. Update kv tlv dm d s = Inr (E_DB_ERROR, s'))
      \<or> (GetRuntime d = None \<and> Update kv tlv dm d s = Inl NullDereference)) \<and>
   (GetRuntime d = Some rt \<and> Delete kv (key_key dm rt) s = (st1, s1) \<and> st1 \<noteq> E_OK
      \<longrightarrow> Update kv tlv dm d s = Inr (E_DB_ERROR, s1)) \<and>
   (GetRuntime d = Some rt \<and> Delete kv (key_key dm rt) s = (E_OK, s1)
      \<and> Put kv tlv dm d s1 = Inr (st2, s2) \<and> st2 \<noteq> E_OK
      \<longrightarrow> Update kv tlv dm d s = Inr (E_DB_ERROR, s2)) \<and>
   (GetRuntime d = Some rt \<and> Delete kv (key_key dm rt) s = (E_OK, s1)
      \<and> (\<exists>r. Some r \<in> set (GetRecords d) \<and> Writing_record tlv r = None)
      \<longrightarrow> Put kv tlv dm d s1 = Inr (E_INVALID_PARAMETERS, s1)
          \<and> Update kv tlv dm d s = Inr (E_DB_ERROR, s1)) \<and>
   (GetRuntime d = Some rt \<and> Delete kv (key_key dm rt) s = (E_OK, s1)
      \<and> (\<forall>r. Some r \<in> set (GetRecords d) \<longrightarrow> Writing_record tlv r \<noteq> None)
      \<and> Writing_runtime tlv rt = None
      \<longrightarrow> Put kv tlv dm d s1 = Inr (E_UNKNOWN, s1)
          \<and> Update kv tlv dm d s = Inr (E_DB_ERROR, s1))"
proof -
  have 1: "(\<exists>s'. Update kv tlv dm d s = Inr (E_OK, s'))
      \<or> (\<exists>s'. Update kv tlv dm d s = Inr (E_DB_ERROR, s'))
      \<or> (GetRuntime d = None \<and> Update kv tlv dm d s = Inl NullDereference)"
  proof (cases "GetRuntime d")
    case None
    then show ?thesis by (simp add: Update_def)
  next
    case (Some rt')
    obtain st1 s1 where del: "Delete kv (key_key dm rt') s = (st1, s1)"
      by (cases "Delete kv (key_key dm rt') s")
    from Put_returns[OF Some, of kv tlv dm s1] obtain st2 s2 where put: "Put kv tlv dm d s1 = Inr (st2, s2)"
      by blast
    from Some del put show ?thesis
      by (simp add: Update_def)
  qed
  have 2: "GetRuntime d = Some rt \<and> Delete kv (key_key dm rt) s = (st1, s1) \<and> st1 \<noteq> E_OK
      \<longrightarrow> Update kv tlv dm d s = Inr (E_DB_ERROR, s1)"
    by (simp add: Update_def)
  have 3: "GetRuntime d = Some rt \<and> Delete kv (key_key dm rt) s = (E_OK, s1)
      \<and> Put kv tlv dm d s1 = Inr (st2, s2) \<and> st2 \<noteq> E_OK
      \<longrightarrow> Update kv tlv dm d s = Inr (E_DB_ERROR, s2)"
    by (simp add: Update_def)
  have 4: "GetRuntime d = Some rt \<and> Delete kv (key_key dm rt) s = (E_OK, s1)
      \<and> (\<exists>r. Some r \<in> set (GetRecords d) \<and> Writing_record tlv r = None)
      \<longrightarrow> Put kv tlv dm d s1 = Inr (E_INVALID_PARAMETERS, s1)
          \<and> Update kv tlv dm d s = Inr (E_DB_ERROR, s1)"
  proof
    assume a: "GetRuntime d = Some rt \<and> Delete kv (key_key dm rt) s = (E_OK, s1)
      \<and> (\<exists>r. Some r \<in> set (GetRecords d) \<and> Writing_record tlv r = None)"
    then have rt: "GetRuntime d = Some rt" by simp
    from a Put_unfold[OF rt, of kv tlv dm s1]
    have p: "Put kv tlv dm d s1 = Inr (E_INVALID_PARAMETERS, s1)" by simp
    with a show "Put kv tlv dm d s1 = Inr (E_INVALID_PARAMETERS, s1)
        \<and> Update kv tlv dm d s = Inr (E_DB_ERROR, s1)"
      by (simp add: Update_def)
  qed
  have 5: "GetRuntime d = Some rt \<and> Delete kv (key_key dm rt) s = (E_OK, s1)
      \<and> (\<forall>r. Some r \<in> set (GetRecords d) \<longrightarrow> Writing_record tlv r \<noteq> None)
      \<and> Writing_runtime tlv rt = None
      \<longrightarrow> Put kv tlv dm d s1 = Inr (E_UNKNOWN, s1)
          \<and> Update kv tlv dm d s = Inr (E_DB_ERROR, s1)"
  proof
    assume a: "GetRuntime d = Some rt \<and> Delete kv (key_key dm rt) s = (E_OK, s1)
      \<and> (\<forall>r. Some r \<in> set (GetRecords d) \<longrightarrow> Writing_record tlv r \<noteq> None)
      \<and> Writing_runtime tlv rt = None"
    then have rt: "GetRuntime d = Some rt" by simp
    from a Put_unfold[OF rt, of kv tlv dm s1]
    have p: "Put kv tlv dm d s1 = Inr (E_UNKNOWN, s1)" by simp
    with a show "Put kv tlv dm d s1 = Inr (E_UNKNOWN, s1)
        \<and> Update kv tlv dm d s = Inr (E_DB_ERROR, s1)"
      by (simp add: Update_def)
  qed
  from 1 2 3 4 5 show ?thesis by (intro conjI)
qed

lemma sample_runtime: "GetRuntime (sample_data k rs) = Some k"
  by (simp add: sample_data_def)

lemma sample_key_key: "key_key sample_dm k = k"
  by (simp add: sample_dm_def)

lemma sample_Delete_nothing:
  "Delete (engine no_faults) k [] = (E_OK, [])"
  by (simp add: Delete_def GetEntries_def engine_def engine_GetEntries_def no_faults_def)

lemma sample_Put_bad_record:
  "Put kv sample_tlv sample_dm (sample_data ''k'' [Some '''']) s = Inr (E_INVALID_PARAMETERS, s)"
  by (simp add: Put_def sample_data_def sample_tlv_def sample_dm_def)

theorem Update_status_witness:
  "Update (engine (delete_fails_on ''k'')) sample_tlv sample_dm (sample_data ''k'' [Some ''a''])
     [(''k'', ''old'')] = Inr (E_DB_ERROR, [(''k'', ''old'')]) \<and>
   Update (engine put_fails) sample_tlv sample_dm (sample_data ''k'' [Some ''a'']) []
     = Inr (E_DB_ERROR, []) \<and>
   Update (engine no_faults) sample_tlv sample_dm (sample_data ''k'' [Some '''']) []
     = Inr (E_DB_ERROR, []) \<and>
   Update (engine no_faults) sample_tlv sample_dm (sample_data '''' [Some ''a'']) []
     = Inr (E_DB_ERROR, [])"
proof -
  have rt: "GetRuntime (sample_data k rs) = Some k" for k rs
    by (simp add: sample_data_def)
  have kk: "key_key sample_dm k = k" for k
    by (simp add: sample_dm_def)
  have d1: "Delete (engine (delete_fails_on ''k'')) ''k'' [(''k'', ''old'')]
            = (E_DB_ERROR, [(''k'', ''old'')])"
    by (simp add: Delete_def GetEntries_def engine_def engine_GetEntries_def
          engine_DeleteBatch_def delete_fails_on_def)
  have d2: "Delete (engine put_fails) ''k'' [] = (E_OK, [])"
    by (simp add: Delete_def GetEntries_def engine_def engine_GetEntries_def put_fails_def)
  have p2: "Put (engine put_fails) sample_tlv sample_dm (sample_data ''k'' [Some ''a'']) []
            = Inr (E_DB_ERROR, [])"
    by (simp add: Put_def sample_data_def sample_tlv_def sample_dm_def engine_def
          engine_PutBatch_def put_fails_def)
  have r3: "\<exists>r. Some r \<in> set (GetRecords (sample_data ''k'' [Some ''''])) \<and>
              Writing_record sample_tlv r = None"
    by (simp add: sample_data_def sample_tlv_def)
  have r4: "(\<forall>r. Some r \<in> set (GetRecords (sample_data '''' [Some ''a''])) \<longrightarrow>
               Writing_record sample_tlv r \<noteq> None) \<and> Writing_runtime sample_tlv '''' = None"
    by (simp add: sample_data_def sample_tlv_def)
  have 1: "Update (engine (delete_fails_on ''k'')) sample_tlv sample_dm
             (sample_data ''k'' [Some ''a'']) [(''k'', ''old'')] = Inr (E_DB_ERROR, [(''k'', ''old'')])"
    using Update_status[where kv = "engine (delete_fails_on ''k'')" and tlv = sample_tlv
        and dm = sample_dm and d = "sample_data ''k'' [Some ''a'']" and s = "[(''k'', ''old'')]"
        and rt = "''k''" and ?st1.0 = E_DB_ERROR and ?s1.0 = "[(''k'', ''old'')]"]
      rt d1 kk by simp
  have 2: "Update (engine put_fails) sample_tlv sample_dm (sample_data ''k'' [Some ''a'']) []
             = Inr (E_DB_ERROR, [])"
    using Update_status[where kv = "engine put_fails" and tlv = sample_tlv
        and dm = sample_dm and d = "sample_data ''k'' [Some ''a'']" and s = "[]"
        and rt = "''k''" and ?s1.0 = "[]" and ?st2.0 = E_DB_ERROR and ?s2.0 = "[]"]
      rt d2 p2 kk by simp
  have 3: "Update (engine no_faults) sample_tlv sample_dm (sample_data ''k'' [Some '''']) []
             = Inr (E_DB_ERROR, [])"
    using Update_status[where kv = "engine no_faults" and tlv = sample_tlv
        and dm = sample_dm and d = "sample_data ''k'' [Some '''']" and s = "[]"
        and rt = "''k''" and ?s1.0 = "[]"]
      rt r3 sample_Delete_nothing kk by simp
  have 4: "Update (engine no_faults) sample_tlv sample_dm (sample_data '''' [Some ''a'']) []
             = Inr (E_DB_ERROR, [])"
    using Update_status[where kv = "engine no_faults" and tlv = sample_tlv
        and dm = sample_dm and d = "sample_data '''' [Some ''a'']" and s = "[]"
        and rt = "''''" and ?s1.0 = "[]"]
      rt r4 sample_Delete_nothing kk by simp
  from 1 2 3 4 show ?thesis by simp
qed

text \<open>
  Claim C4, as stated, fails: with \<^verbatim>\<open>Update\<close> the status of the composition is lost. On
  an empty engine, for an object with a record that does not encode, \<^verbatim>\<open>Delete\<close> followed
  by \<^verbatim>\<open>Put\<close> returns \<^verbatim>\<open>E_INVALID_PARAMETERS\<close> and \<^verbatim>\<open>Update\<close> returns \<^verbatim>\<open>E_DB_ERROR\<close>.
\<close>

theorem Update_hides_status:
  "Update (engine no_faults) sample_tlv sample_dm (sample_data ''k'' [Some '''']) []
     = Inr (E_DB_ERROR, []) \<and>
   Delete_then_Put (engine no_faults) sample_tlv sample_dm (sample_data ''k'' [Some '''']) []
     = Inr (E_INVALID_PARAMETERS, [])"
  by (simp add: Update_def Delete_then_Put_def sample_runtime sample_key_key
        sample_Delete_nothing sample_Put_bad_record)

text \<open>
  Claim C4, amended. \<^verbatim>\<open>Update\<close> leaves the engine in the state that \<^verbatim>\<open>Delete\<close> of the
  runtime's key followed by \<^verbatim>\<open>Put\<close> leaves it in (\<^verbatim>\<open>Put\<close> being called only when
  \<^verbatim>\<open>Delete\<close> returned \<^verbatim>\<open>E_OK\<close>), for every engine state. Its status is \<^verbatim>\<open>E_OK\<close> when
  that of the composition is \<^verbatim>\<open>E_OK\<close>, and \<^verbatim>\<open>E_DB_ERROR\<close> for every other status of the
  composition.
\<close>

theorem Update_refines_Delete_then_Put:
  "Update kv tlv dm d s =
     (case Delete_then_Put kv tlv dm d s of
        Inl f \<Rightarrow> Inl f
      | Inr (st, s') \<Rightarrow> Inr (if st = E_OK then E_OK else E_DB_ERROR, s'))"
  by (auto simp: Update_def Delete_then_Put_def Let_def
        split: option.splits prod.splits sum.splits)

theorem Update_refines_Delete_then_Put_witness:
  "Update (engine no_faults) sample_tlv sample_dm (sample_data ''k'' [Some ''b''])
     [(''k'', ''k''), (''k/a'', ''a''), (''l'', ''l'')]
   = Inr (E_OK, [(''k'', ''k''), (''k/b'', ''b''), (''l'', ''l'')])"
proof -
  have "Delete_then_Put (engine no_faults) sample_tlv sample_dm (sample_data ''k'' [Some ''b''])
          [(''k'', ''k''), (''k/a'', ''a''), (''l'', ''l'')]
        = Inr (E_OK, [(''k'', ''k''), (''k/b'', ''b''), (''l'', ''l'')])"
    by (simp add: Delete_then_Put_def Delete_def Put_def GetEntries_def engine_def
          engine_GetEntries_def engine_DeleteBatch_def engine_PutBatch_def no_faults_def
          sample_data_def sample_tlv_def sample_dm_def Let_def)
  with Update_refines_Delete_then_Put[of "engine no_faults" sample_tlv sample_dm
      "sample_data ''k'' [Some ''b'']" "[(''k'', ''k''), (''k/a'', ''a''), (''l'', ''l'')]"]
  show ?thesis by simp
qed

subsection \<open>Delete, then Get\<close>

lemma engine_scan_after_delete:
  "filter (\<lambda>e. prefix k (fst e))
     (filter (\<lambda>e. fst e \<notin> set (map fst (filter (\<lambda>e. prefix k (fst e)) s))) s) = []"
  by (force simp: filter_empty_conv)

lemma engine_GetEntries_Nil:
  "filter (\<lambda>e. prefix k (fst e)) s = [] \<Longrightarrow> GetEntries (engine flt) k s = []"
  by (simp add: GetEntries_def engine_def engine_GetEntries_def Let_def)

text \<open>
  Claim C6, as stated, fails: \<^verbatim>\<open>Delete\<close> does not look at the status of its scan, so a
  scan that fails looks like a key with no entries and \<^verbatim>\<open>Delete\<close> returns \<^verbatim>\<open>E_OK\<close>
  without deleting anything. When the scan of the following \<^verbatim>\<open>Get\<close> works, \<^verbatim>\<open>Get\<close> reads
  the whole object back.
\<close>

theorem Delete_swallows_failed_scan:
  "Delete (engine scan_fails) ''k'' [(''k'', ''k''), (''k/a'', ''a'')]
     = (E_OK, [(''k'', ''k''), (''k/a'', ''a'')]) \<and>
   Get (engine no_faults) sample_tlv ''k'' UnifiedData_new [(''k'', ''k''), (''k/a'', ''a'')]
     = (E_OK, sample_data ''k'' [Some ''a'']) \<and>
   sample_data ''k'' [Some ''a''] \<noteq> UnifiedData_new"
  by (simp add: Delete_def Get_def GetEntries_def engine_def engine_GetEntries_def
        scan_fails_def no_faults_def sample_tlv_def sample_data_def UnifiedData_new_def)

text \<open>
  Claim C6, amended. On the key-value engine, for every key and every engine state: when
  \<^verbatim>\<open>Delete\<close> of the key returns \<^verbatim>\<open>E_OK\<close> and the scan it made did not fail, \<^verbatim>\<open>Get\<close> of
  that key on the state \<^verbatim>\<open>Delete\<close> left returns \<^verbatim>\<open>E_OK\<close> and the output object is the one
  it was given: no runtime is set and no record is appended, so an empty object stays
  empty. This holds whatever the engine does during \<^verbatim>\<open>Get\<close>: its failures there, given by
  \<open>flt'\<close>, need not be those it had during \<^verbatim>\<open>Delete\<close>.
\<close>

theorem Delete_then_Get:
  assumes "Delete (engine flt) k s = (E_OK, s')"
    and "scan_status flt k s = DB_OK"
  shows "Get (engine flt') tlv k d s' = (E_OK, d)"
proof -
  have found: "GetEntries (engine flt) k s = filter (\<lambda>e. prefix k (fst e)) s"
    using assms(2) by (simp add: GetEntries_def engine_def engine_GetEntries_def Let_def)
  have "filter (\<lambda>e. prefix k (fst e)) s' = []"
  proof (cases "filter (\<lambda>e. prefix k (fst e)) s = []")
    case True
    with assms(1) found have "s' = s" by (simp add: Delete_def)
    with True show ?thesis by simp
  next
    case False
    with assms(1) found
    have "s' = filter (\<lambda>e. fst e \<notin> set (map fst (filter (\<lambda>e. prefix k (fst e)) s))) s"
      by (auto simp: Delete_def engine_def engine_DeleteBatch_def Let_def split: if_splits)
    then show ?thesis
      by (simp only: engine_scan_after_delete)
  qed
  then have "GetEntries (engine flt') k s' = []"
    by (rule engine_GetEntries_Nil)
  then show ?thesis by (simp add: Get_def)
qed

theorem Delete_then_Get_witness:
  "Delete (engine no_faults) ''k'' [(''k'', ''k''), (''k/a'', ''a''), (''l'', ''l'')]
     = (E_OK, [(''l'', ''l'')]) \<and>
   Get (engine put_fails) sample_tlv ''k'' UnifiedData_new [(''l'', ''l'')]
     = (E_OK, UnifiedData_new)"
proof -
  have d: "Delete (engine no_faults) ''k'' [(''k'', ''k''), (''k/a'', ''a''), (''l'', ''l'')]
     = (E_OK, [(''l'', ''l'')])"
    by (simp add: Delete_def GetEntries_def engine_def engine_GetEntries_def
          engine_DeleteBatch_def no_faults_def)
  have sc: "scan_status no_faults ''k'' [(''k'', ''k''), (''k/a'', ''a''), (''l'', ''l'')] = DB_OK"
    by (simp add: no_faults_def)
  from d Delete_then_Get[OF d sc, of put_fails sample_tlv UnifiedData_new] show ?thesis by simp
qed

subsection \<open>GetSummary\<close>

text \<open>The sum of the entries of a map when one entry is written.\<close>

lemma sum_dom_upd_f:
  fixes f :: "'v \<Rightarrow> 'b :: comm_monoid_add"
  assumes "finite (dom m)"
  shows "(\<Sum>k\<in>dom (m(a \<mapsto> v)). f (the ((m(a \<mapsto> v)) k))) = f v + (\<Sum>k\<in>dom m - {a}. f (the (m k)))"
proof -
  have fin: "finite (dom m - {a})" using assms by simp
  have "(\<Sum>k\<in>dom (m(a \<mapsto> v)). f (the ((m(a \<mapsto> v)) k)))
        = (\<Sum>k\<in>insert a (dom m - {a}). f (the ((m(a \<mapsto> v)) k)))"
    by (rule sum.cong) auto
  also have "\<dots> = f (the ((m(a \<mapsto> v)) a)) + (\<Sum>k\<in>dom m - {a}. f (the ((m(a \<mapsto> v)) k)))"
    using fin by (rule sum.insert) simp
  also have "(\<Sum>k\<in>dom m - {a}. f (the ((m(a \<mapsto> v)) k))) = (\<Sum>k\<in>dom m - {a}. f (the (m k)))"
    by (rule sum.cong) auto
  finally show ?thesis by (simp only: fun_upd_same option.sel)
qed

lemma sum_dom_split_f:
  fixes f :: "'v \<Rightarrow> 'b :: comm_monoid_add"
  assumes "finite (dom m)"
  shows "(\<Sum>k\<in>dom m. f (the (m k)))
         = (case m a of None \<Rightarrow> 0 | Some v \<Rightarrow> f v) + (\<Sum>k\<in>dom m - {a}. f (the (m k)))"
proof (cases "m a")
  case None
  then have "dom m - {a} = dom m" by auto
  with None show ?thesis by simp
next
  case (Some v)
  then have "a \<in> dom m" by auto
  with assms have "(\<Sum>k\<in>dom m. f (the (m k))) = f (the (m a)) + (\<Sum>k\<in>dom m - {a}. f (the (m k)))"
    by (simp add: sum.remove)
  with Some show ?thesis by simp
qed

lemma SummaryLoop_Inr:
  "None \<notin> set rs \<Longrightarrow> (\<forall>r. Some r \<in> set rs \<longrightarrow> UD_TYPE_MAP dm (GetType dm r) \<noteq> None)
   \<Longrightarrow> \<exists>sm'. SummaryLoop dm rs sm = Inr sm'"
  by (induction dm rs sm rule: SummaryLoop.induct) (auto simp: Let_def split: option.splits)

lemma SummaryLoop_total:
  "SummaryLoop dm rs sm = Inr sm'
   \<Longrightarrow> totalSize sm' = totalSize sm + sum_list (map (GetSize dm) (present rs))"
  by (induction dm rs sm rule: SummaryLoop.induct)
     (auto simp: Let_def add.assoc split: option.splits)

lemma SummaryLoop_sum:
  "SummaryLoop dm rs sm = Inr sm' \<Longrightarrow> finite (dom (summary sm))
   \<Longrightarrow> finite (dom (summary sm')) \<and>
       (\<Sum>k\<in>dom (summary sm'). the (summary sm' k))
         = (\<Sum>k\<in>dom (summary sm). the (summary sm k)) + sum_list (map (GetSize dm) (present rs))"
proof (induction rs arbitrary: sm)
  case Nil
  then show ?case by simp
next
  case (Cons x rs)
  from Cons.prems(1) obtain r where x: "x = Some r"
    by (cases x) auto
  from Cons.prems(1) x obtain kind where kind: "UD_TYPE_MAP dm (GetType dm r) = Some kind"
    by (auto simp: Let_def split: option.splits)
  let ?v = "case summary sm kind of None \<Rightarrow> GetSize dm r | Some old \<Rightarrow> old + GetSize dm r"
  let ?m = "(summary sm)(kind \<mapsto> ?v)"
  let ?sm = "sm\<lparr>summary := ?m, totalSize := totalSize sm + GetSize dm r\<rparr>"
  have m: "(case summary sm kind of None \<Rightarrow> (summary sm)(kind \<mapsto> GetSize dm r)
            | Some old \<Rightarrow> (summary sm)(kind \<mapsto> old + GetSize dm r)) = ?m"
    by (simp split: option.splits)
  from Cons.prems(1) x kind m have loop: "SummaryLoop dm rs ?sm = Inr sm'"
    by (simp add: Let_def)
  have fin: "finite (dom (summary ?sm))" using Cons.prems(2) by simp
  have step: "(\<Sum>k\<in>dom ?m. the (?m k))
              = (\<Sum>k\<in>dom (summary sm). the (summary sm k)) + GetSize dm r"
    using sum_dom_upd_f[OF Cons.prems(2), where f = "\<lambda>x. x" and a = kind and v = ?v]
      sum_dom_split_f[OF Cons.prems(2), where f = "\<lambda>x. x" and a = kind]
    by (simp split: option.splits add: add.commute add.left_commute)
  have sel: "summary ?sm = ?m" by simp
  note ih = Cons.IH[OF loop fin]
  have A: "finite (dom (summary sm'))"
    using ih by (rule conjunct1)
  have B: "(\<Sum>k\<in>dom (summary sm'). the (summary sm' k))
         = (\<Sum>k\<in>dom ?m. the (?m k)) + sum_list (map (GetSize dm) (present rs))"
    using ih[THEN conjunct2] by (simp only: sel)
  have pr: "sum_list (map (GetSize dm) (present (x # rs)))
            = GetSize dm r + sum_list (map (GetSize dm) (present rs))"
    using x by simp
  show ?case using A B step pr by (simp only: add.assoc simp_thms)
qed

lemma SummaryLoop_kind:
  "SummaryLoop dm rs sm = Inr sm' \<Longrightarrow>
   summary sm' kind =
     (if of_kind dm kind (present rs) = [] then summary sm kind
      else Some ((case summary sm kind of None \<Rightarrow> 0 | Some v \<Rightarrow> v)
                 + sum_list (map (GetSize dm) (of_kind dm kind (present rs)))))"
  by (induction dm rs sm arbitrary: rule: SummaryLoop.induct)
     (auto simp: Let_def of_kind_def add.assoc split: option.splits)

lemma GetLoop_present:
  "GetLoop tlv key es d = (st, d') \<Longrightarrow> None \<notin> set (GetRecords d) \<Longrightarrow> None \<notin> set (GetRecords d')"
  by (induction tlv key es d rule: GetLoop.induct) (auto split: if_splits option.splits)

lemma Get_present:
  "Get kv tlv key UnifiedData_new s = (st, d) \<Longrightarrow> None \<notin> set (GetRecords d)"
  using GetLoop_present[of tlv key _ UnifiedData_new st d]
  by (auto simp: Get_def Let_def UnifiedData_new_def split: if_splits)

text \<open>The same sums, read as integers, while nothing overflows.\<close>

lemma sint_add_in_range:
  fixes a b :: "64 word"
  assumes "0 \<le> sint a + sint b" "sint a + sint b < 2 ^ 63"
  shows "sint (a + b) = sint a + sint b"
  using assms by (simp add: sint_word_add signed_take_bit_int_eq_self)

lemma SummaryLoop_sint:
  assumes "SummaryLoop dm rs sm = Inr sm'"
    and "finite (dom (summary sm))"
    and "\<forall>k v. summary sm k = Some v \<longrightarrow> 0 \<le> sint v"
    and "(\<Sum>k\<in>dom (summary sm). sint (the (summary sm k))) = sint (totalSize sm)"
    and "\<forall>r\<in>set (present rs). 0 \<le> sint (GetSize dm r)"
    and "sint (totalSize sm) + (\<Sum>r\<leftarrow>present rs. sint (GetSize dm r)) < 2 ^ 63"
  shows "sint (totalSize sm') = sint (totalSize sm) + (\<Sum>r\<leftarrow>present rs. sint (GetSize dm r))
       \<and> (\<Sum>k\<in>dom (summary sm'). sint (the (summary sm' k))) = sint (totalSize sm')"
  using assms
proof (induction rs arbitrary: sm)
  case Nil
  then show ?case by simp
next
  case (Cons x rs)
  from Cons.prems(1) obtain r where x: "x = Some r"
    by (cases x) auto
  from Cons.prems(1) x obtain kind where kind: "UD_TYPE_MAP dm (GetType dm r) = Some kind"
    by (auto simp: Let_def split: option.splits)
  let ?g = "GetSize dm r"
  let ?mo = "summary sm"
  let ?R = "\<Sum>r\<leftarrow>present rs. sint (GetSize dm r)"
  let ?v = "case ?mo kind of None \<Rightarrow> ?g | Some old \<Rightarrow> old + ?g"
  let ?m = "?mo(kind \<mapsto> ?v)"
  let ?sm = "sm\<lparr>summary := ?m, totalSize := totalSize sm + ?g\<rparr>"
  have m: "(case ?mo kind of None \<Rightarrow> ?mo(kind \<mapsto> ?g)
            | Some old \<Rightarrow> ?mo(kind \<mapsto> old + ?g)) = ?m"
    by (simp split: option.splits)
  from Cons.prems(1) x kind m have loop: "SummaryLoop dm rs ?sm = Inr sm'"
    by (simp add: Let_def)
  have fin0: "finite (dom ?mo)" by (rule Cons.prems(2))
  have nn0: "\<And>k v. ?mo k = Some v \<Longrightarrow> 0 \<le> sint v" using Cons.prems(3) by blast
  have G: "0 \<le> sint ?g" using Cons.prems(5) x by simp
  have rest_nn: "\<forall>r\<in>set (present rs). 0 \<le> sint (GetSize dm r)" using Cons.prems(5) x by simp
  then have R: "0 \<le> ?R" by (intro sum_list_nonneg) auto
  have bound: "sint (totalSize sm) + sint ?g + ?R < 2 ^ 63" using Cons.prems(6) x by simp
  have T: "0 \<le> sint (totalSize sm)"
    unfolding Cons.prems(4)[symmetric] by (intro sum_nonneg) (auto dest: nn0)
  have tot: "sint (totalSize sm + ?g) = sint (totalSize sm) + sint ?g"
    using T G R bound by (intro sint_add_in_range) simp_all
  have old_le: "sint old \<le> sint (totalSize sm)" if "?mo kind = Some old" for old
  proof -
    from that have "kind \<in> dom ?mo" by auto
    then have "sint (the (?mo kind)) \<le> (\<Sum>k\<in>dom ?mo. sint (the (?mo k)))"
      using fin0 by (intro member_le_sum) (auto dest: nn0)
    with that show ?thesis by (simp add: Cons.prems(4))
  qed
  have sv: "sint ?v = (case ?mo kind of None \<Rightarrow> 0 | Some old \<Rightarrow> sint old) + sint ?g"
  proof (cases "?mo kind")
    case None
    then show ?thesis by simp
  next
    case (Some old)
    have "sint (old + ?g) = sint old + sint ?g"
      using nn0[OF Some] old_le[OF Some] G R bound by (intro sint_add_in_range) simp_all
    with Some show ?thesis by simp
  qed
  have nn: "\<forall>k v. summary ?sm k = Some v \<longrightarrow> 0 \<le> sint v"
  proof (intro allI impI)
    fix k v assume kv: "summary ?sm k = Some v"
    show "0 \<le> sint v"
    proof (cases "k = kind")
      case True
      with kv have "v = ?v" by simp
      moreover have "0 \<le> sint ?v" unfolding sv using G by (auto split: option.splits dest: nn0)
      ultimately show ?thesis by simp
    next
      case False
      with kv have "?mo k = Some v" by simp
      then show ?thesis by (rule nn0)
    qed
  qed
  have fin: "finite (dom (summary ?sm))" using fin0 by simp
  have sel: "summary ?sm = ?m" by simp
  have "(\<Sum>k\<in>dom ?m. sint (the (?m k))) = sint ?v + (\<Sum>k\<in>dom ?mo - {kind}. sint (the (?mo k)))"
    using fin0 by (rule sum_dom_upd_f)
  also have "\<dots> = (case ?mo kind of None \<Rightarrow> 0 | Some old \<Rightarrow> sint old)
                     + (\<Sum>k\<in>dom ?mo - {kind}. sint (the (?mo k))) + sint ?g"
    unfolding sv by simp
  also have "(case ?mo kind of None \<Rightarrow> 0 | Some old \<Rightarrow> sint old)
                     + (\<Sum>k\<in>dom ?mo - {kind}. sint (the (?mo k)))
             = (\<Sum>k\<in>dom ?mo. sint (the (?mo k)))"
    using sum_dom_split_f[OF fin0, of sint kind] by simp
  finally have "(\<Sum>k\<in>dom ?m. sint (the (?m k)))
                = (\<Sum>k\<in>dom ?mo. sint (the (?mo k))) + sint ?g" .
  then have "(\<Sum>k\<in>dom ?m. sint (the (?m k))) = sint (totalSize sm + ?g)"
    by (simp only: Cons.prems(4) tot)
  moreover have tsel: "totalSize ?sm = totalSize sm + ?g" by simp
  ultimately have inv:
    "(\<Sum>k\<in>dom (summary ?sm). sint (the (summary ?sm k))) = sint (totalSize ?sm)"
    by (simp only: sel)
  have bound': "sint (totalSize ?sm) + ?R < 2 ^ 63"
    using bound by (simp only: tsel tot)
  from Cons.IH[OF loop fin nn inv rest_nn bound']
  have "sint (totalSize sm') = sint (totalSize ?sm) + ?R"
    and S: "(\<Sum>k\<in>dom (summary sm'). sint (the (summary sm' k))) = sint (totalSize sm')"
    by blast+
  with tot x have "sint (totalSize sm')
      = sint (totalSize sm) + (\<Sum>r\<leftarrow>present (x # rs). sint (GetSize dm r))"
    by (simp add: tsel)
  with S show ?case by blast
qed


lemma sint_sum_list:
  fixes f :: "'a \<Rightarrow> 64 word"
  assumes "\<forall>r\<in>set rs. 0 \<le> sint (f r)" "(\<Sum>r\<leftarrow>rs. sint (f r)) < 2 ^ 63"
  shows "sint (\<Sum>r\<leftarrow>rs. f r) = (\<Sum>r\<leftarrow>rs. sint (f r))"
  using assms
proof (induction rs)
  case Nil
  then show ?case by simp
next
  case (Cons r rs)
  have nn: "0 \<le> sint (f r)" and rest: "\<forall>r\<in>set rs. 0 \<le> sint (f r)"
    using Cons.prems(1) by simp_all
  from rest have R: "0 \<le> (\<Sum>r\<leftarrow>rs. sint (f r))"
    by (intro sum_list_nonneg) auto
  with nn Cons.prems(2) have "(\<Sum>r\<leftarrow>rs. sint (f r)) < 2 ^ 63" by simp
  with Cons.IH rest have ih: "sint (\<Sum>r\<leftarrow>rs. f r) = (\<Sum>r\<leftarrow>rs. sint (f r))" by simp
  have "sint (f r + (\<Sum>r\<leftarrow>rs. f r)) = sint (f r) + sint (\<Sum>r\<leftarrow>rs. f r)"
    using nn R Cons.prems(2) unfolding ih[symmetric]
    by (intro sint_add_in_range) (simp_all add: ih)
  with ih show ?case by simp
qed

lemma sum_list_filter_le:
  fixes g :: "'a \<Rightarrow> int"
  shows "\<forall>r\<in>set rs. 0 \<le> g r \<Longrightarrow> (\<Sum>r\<leftarrow>filter P rs. g r) \<le> (\<Sum>r\<leftarrow>rs. g r)"
  by (induction rs) auto

lemma SummaryLoop_sint_fresh:
  assumes loop: "SummaryLoop dm rs Summary_new = Inr sm'"
    and nn: "\<forall>r\<in>set (present rs). 0 \<le> sint (GetSize dm r)"
    and bound: "(\<Sum>r\<leftarrow>present rs. sint (GetSize dm r)) < 2 ^ 63"
  shows "sint (totalSize sm') = (\<Sum>r\<leftarrow>present rs. sint (GetSize dm r))
       \<and> (\<Sum>k\<in>dom (summary sm'). sint (the (summary sm' k))) = sint (totalSize sm')"
proof -
  have 1: "finite (dom (summary Summary_new))" by (simp add: Summary_new_def)
  have 2: "\<forall>k v. summary Summary_new k = Some v \<longrightarrow> 0 \<le> sint v"
    by (simp add: Summary_new_def)
  have 3: "(\<Sum>k\<in>dom (summary Summary_new). sint (the (summary Summary_new k)))
           = sint (totalSize Summary_new)"
    by (simp add: Summary_new_def)
  have 4: "sint (totalSize Summary_new) + (\<Sum>r\<leftarrow>present rs. sint (GetSize dm r)) < 2 ^ 63"
    using bound by (simp add: Summary_new_def)
  from SummaryLoop_sint[OF loop 1 2 3 nn 4] show ?thesis
    by (simp add: Summary_new_def)
qed

lemma of_kind_sint:
  assumes nn: "\<forall>r\<in>set rs. 0 \<le> sint (GetSize dm r)"
    and bound: "(\<Sum>r\<leftarrow>rs. sint (GetSize dm r)) < 2 ^ 63"
  shows "sint (\<Sum>r\<leftarrow>of_kind dm kind rs. GetSize dm r)
         = (\<Sum>r\<leftarrow>of_kind dm kind rs. sint (GetSize dm r))"
proof (rule sint_sum_list)
  show "\<forall>r\<in>set (of_kind dm kind rs). 0 \<le> sint (GetSize dm r)"
    using nn by (simp add: of_kind_def)
  have "(\<Sum>r\<leftarrow>of_kind dm kind rs. sint (GetSize dm r)) \<le> (\<Sum>r\<leftarrow>rs. sint (GetSize dm r))"
    unfolding of_kind_def using nn by (rule sum_list_filter_le)
  with bound show "(\<Sum>r\<leftarrow>of_kind dm kind rs. sint (GetSize dm r)) < 2 ^ 63" by simp
qed

text \<open>
  Claim C8. \<^verbatim>\<open>GetSummary\<close> reads the object stored under the key with \<^verbatim>\<open>Get\<close>. When
  \<^verbatim>\<open>Get\<close> returns a status other than \<^verbatim>\<open>E_OK\<close>, \<^verbatim>\<open>GetSummary\<close> returns
  \<^verbatim>\<open>E_DB_ERROR\<close> and the summary it was given. When \<^verbatim>\<open>Get\<close> returns \<^verbatim>\<open>E_OK\<close> with
  records of sizes \<open>s1..sn\<close> (each kind being in the table \<^verbatim>\<open>UD_TYPE_MAP\<close>), then, into
  a fresh summary, \<^verbatim>\<open>GetSummary\<close> returns \<^verbatim>\<open>E_OK\<close>; \<^verbatim>\<open>totalSize\<close> is \<open>s1 + ... + sn\<close>,
  the sum of \<^verbatim>\<open>GetSize\<close> over the records and of nothing else, so the runtime block does
  not count; the entry of each kind is the sum of the sizes of the records of that kind,
  and there is no entry for a kind without records; and the entries add up to
  \<^verbatim>\<open>totalSize\<close>. These sums are those of the machine, in 64 bits. They are the sums of
  the integers when the sizes are not negative and \<open>s1 + ... + sn\<close> is less than
  \<open>2^63\<close>: the last part of the statement.
\<close>

theorem GetSummary_additive:
  assumes "Get kv tlv key UnifiedData_new s = (st, d)"
  shows "(st \<noteq> E_OK \<longrightarrow> GetSummary kv tlv dm key sm s = Inr (E_DB_ERROR, sm)) \<and>
         (st = E_OK \<and> (\<forall>r. Some r \<in> set (GetRecords d) \<longrightarrow> UD_TYPE_MAP dm (GetType dm r) \<noteq> None)
          \<longrightarrow> (\<exists>sm'. GetSummary kv tlv dm key Summary_new s = Inr (E_OK, sm')
                \<and> totalSize sm' = (\<Sum>r\<leftarrow>present (GetRecords d). GetSize dm r)
                \<and> (\<forall>kind. summary sm' kind =
                      (if of_kind dm kind (present (GetRecords d)) = [] then None
                       else Some (\<Sum>r\<leftarrow>of_kind dm kind (present (GetRecords d)). GetSize dm r)))
                \<and> finite (dom (summary sm'))
                \<and> (\<Sum>kind\<in>dom (summary sm'). the (summary sm' kind)) = totalSize sm'
                \<and> ((\<forall>r\<in>set (present (GetRecords d)). 0 \<le> sint (GetSize dm r))
                     \<and> (\<Sum>r\<leftarrow>present (GetRecords d). sint (GetSize dm r)) < 2 ^ 63
                   \<longrightarrow> sint (totalSize sm') = (\<Sum>r\<leftarrow>present (GetRecords d). sint (GetSize dm r))
                       \<and> (\<forall>kind v. summary sm' kind = Some v \<longrightarrow>
                             sint v = (\<Sum>r\<leftarrow>of_kind dm kind (present (GetRecords d)).
                                          sint (GetSize dm r)))
                       \<and> (\<Sum>kind\<in>dom (summary sm'). sint (the (summary sm' kind)))
                           = sint (totalSize sm'))))"
    (is "?A \<and> (?H \<longrightarrow> (\<exists>sm'. ?P sm'))")
proof (rule conjI)
  show ?A using assms by (simp add: GetSummary_def)
next
  show "?H \<longrightarrow> (\<exists>sm'. ?P sm')"
  proof
    assume a: ?H
    let ?recs = "present (GetRecords d)"
    have nonnull: "None \<notin> set (GetRecords d)"
      using assms by (rule Get_present)
    from SummaryLoop_Inr[OF nonnull, of dm Summary_new] a
    obtain sm' where loop: "SummaryLoop dm (GetRecords d) Summary_new = Inr sm'"
      by blast
    have fin: "finite (dom (summary Summary_new))"
      by (simp add: Summary_new_def)
    have g: "GetSummary kv tlv dm key Summary_new s = Inr (E_OK, sm')"
      using assms a loop by (simp add: GetSummary_def)
    have t: "totalSize sm' = (\<Sum>r\<leftarrow>?recs. GetSize dm r)"
      using SummaryLoop_total[OF loop] by (simp add: Summary_new_def)
    have k: "\<forall>kind. summary sm' kind =
                      (if of_kind dm kind ?recs = [] then None
                       else Some (\<Sum>r\<leftarrow>of_kind dm kind ?recs. GetSize dm r))"
      using SummaryLoop_kind[OF loop] by (simp add: Summary_new_def)
    have f: "finite (dom (summary sm'))"
      using SummaryLoop_sum[OF loop fin] by (rule conjunct1)
    have "(\<Sum>kind\<in>dom (summary sm'). the (summary sm' kind)) = (\<Sum>r\<leftarrow>?recs. GetSize dm r)"
      using SummaryLoop_sum[OF loop fin] by (simp add: Summary_new_def)
    with t have e: "(\<Sum>kind\<in>dom (summary sm'). the (summary sm' kind)) = totalSize sm'"
      by simp
    have i: "(\<forall>r\<in>set ?recs. 0 \<le> sint (GetSize dm r))
                     \<and> (\<Sum>r\<leftarrow>?recs. sint (GetSize dm r)) < 2 ^ 63
                   \<longrightarrow> sint (totalSize sm') = (\<Sum>r\<leftarrow>?recs. sint (GetSize dm r))
                       \<and> (\<forall>kind v. summary sm' kind = Some v \<longrightarrow>
                             sint v = (\<Sum>r\<leftarrow>of_kind dm kind ?recs. sint (GetSize dm r)))
                       \<and> (\<Sum>kind\<in>dom (summary sm'). sint (the (summary sm' kind)))
                           = sint (totalSize sm')"
    proof
      assume b: "(\<forall>r\<in>set ?recs. 0 \<le> sint (GetSize dm r))
                     \<and> (\<Sum>r\<leftarrow>?recs. sint (GetSize dm r)) < 2 ^ 63"
      then have nn: "\<forall>r\<in>set ?recs. 0 \<le> sint (GetSize dm r)"
        and bound: "(\<Sum>r\<leftarrow>?recs. sint (GetSize dm r)) < 2 ^ 63" by simp_all
      note fresh = SummaryLoop_sint_fresh[OF loop nn bound]
      have pk: "\<forall>kind v. summary sm' kind = Some v \<longrightarrow>
                  sint v = (\<Sum>r\<leftarrow>of_kind dm kind ?recs. sint (GetSize dm r))"
      proof (intro allI impI)
        fix kind v assume "summary sm' kind = Some v"
        with k have "v = (\<Sum>r\<leftarrow>of_kind dm kind ?recs. GetSize dm r)"
          by (simp split: if_splits)
        then show "sint v = (\<Sum>r\<leftarrow>of_kind dm kind ?recs. sint (GetSize dm r))"
          using of_kind_sint[OF nn bound, of kind] by simp
      qed
      from fresh pk
      show "sint (totalSize sm') = (\<Sum>r\<leftarrow>?recs. sint (GetSize dm r))
                       \<and> (\<forall>kind v. summary sm' kind = Some v \<longrightarrow>
                             sint v = (\<Sum>r\<leftarrow>of_kind dm kind ?recs. sint (GetSize dm r)))
                       \<and> (\<Sum>kind\<in>dom (summary sm'). sint (the (summary sm' kind)))
                           = sint (totalSize sm')"
        by blast
    qed
    from g t k f e i have "?P sm'" by (intro conjI)
    then show "\<exists>sm'. ?P sm'" ..
  qed
qed


theorem GetSummary_additive_witness:
  "(\<exists>sm'. GetSummary (engine no_faults) form_tlv form_dm ''k'' Summary_new
            [(''k'', ''k''), (''k/a'', ''a''), (''k/bb'', ''bb''), (''k/c'', ''c'')]
          = Inr (E_OK, sm')
        \<and> totalSize sm' = 16 \<and> summary sm' ''one'' = Some 10 \<and> summary sm' ''two'' = Some 6
        \<and> (\<Sum>kind\<in>dom (summary sm'). the (summary sm' kind)) = totalSize sm'
        \<and> sint (totalSize sm') = 16
        \<and> (\<Sum>kind\<in>dom (summary sm'). sint (the (summary sm' kind))) = sint (totalSize sm')) \<and>
   GetSummary (engine no_faults) form_tlv form_dm ''k'' Summary_new [(''k'', [])]
     = Inr (E_DB_ERROR, Summary_new)"
proof -
  let ?s = "[(''k'', ''k''), (''k/a'', ''a''), (''k/bb'', ''bb''), (''k/c'', ''c'')]"
  let ?form = "\<lambda>v. \<lparr>details = (), formId = 7, formName = v, bundleName = [],
                        abilityName = [], module = []\<rparr>"
  let ?d = "\<lparr>GetRuntime = Some ''k'',
             GetRecords = [Some (?form ''a''), Some (?form ''bb''), Some (?form ''c'')]\<rparr>"
  have g1: "Get (engine no_faults) form_tlv ''k'' UnifiedData_new ?s = (E_OK, ?d)"
    by (simp add: Get_def GetEntries_def engine_def engine_GetEntries_def no_faults_def
          form_tlv_def UnifiedData_new_def)
  have h1: "E_OK = E_OK \<and>
      (\<forall>r. Some r \<in> set (GetRecords ?d) \<longrightarrow> UD_TYPE_MAP form_dm (GetType form_dm r) \<noteq> None)"
    by (auto simp: form_dm_def)
  have h2: "(\<forall>r\<in>set (present (GetRecords ?d)). 0 \<le> sint (GetSize form_dm r))
            \<and> (\<Sum>r\<leftarrow>present (GetRecords ?d). sint (GetSize form_dm r)) < 2 ^ 63"
    by (simp add: form_dm_def SystemDefinedForm_GetSize_def)
  have g2: "Get (engine no_faults) form_tlv ''k'' UnifiedData_new [(''k'', [])]
            = (E_UNKNOWN, UnifiedData_new)"
    by (simp add: Get_def GetEntries_def engine_def engine_GetEntries_def no_faults_def
          form_tlv_def)
  from GetSummary_additive[OF g1, of form_dm] h1
  obtain sm' where
    r: "GetSummary (engine no_faults) form_tlv form_dm ''k'' Summary_new ?s = Inr (E_OK, sm')"
    and t: "totalSize sm' = (\<Sum>r\<leftarrow>present (GetRecords ?d). GetSize form_dm r)"
    and k: "\<forall>kind. summary sm' kind =
                      (if of_kind form_dm kind (present (GetRecords ?d)) = [] then None
                       else Some (\<Sum>r\<leftarrow>of_kind form_dm kind (present (GetRecords ?d)).
                                    GetSize form_dm r))"
    and e: "(\<Sum>kind\<in>dom (summary sm'). the (summary sm' kind)) = totalSize sm'"
    and i: "(\<forall>r\<in>set (present (GetRecords ?d)). 0 \<le> sint (GetSize form_dm r))
            \<and> (\<Sum>r\<leftarrow>present (GetRecords ?d). sint (GetSize form_dm r)) < 2 ^ 63
          \<longrightarrow> sint (totalSize sm') = (\<Sum>r\<leftarrow>present (GetRecords ?d). sint (GetSize form_dm r))
              \<and> (\<forall>kind v. summary sm' kind = Some v \<longrightarrow>
                    sint v = (\<Sum>r\<leftarrow>of_kind form_dm kind (present (GetRecords ?d)).
                                 sint (GetSize form_dm r)))
              \<and> (\<Sum>kind\<in>dom (summary sm'). sint (the (summary sm' kind)))
                  = sint (totalSize sm')"
    by blast
  from t have t': "totalSize sm' = 16"
    by (simp add: form_dm_def SystemDefinedForm_GetSize_def)
  from k[rule_format, of "''one''"] have k1: "summary sm' ''one'' = Some 10"
    by (simp add: form_dm_def SystemDefinedForm_GetSize_def of_kind_def)
  from k[rule_format, of "''two''"] have k2: "summary sm' ''two'' = Some 6"
    by (simp add: form_dm_def SystemDefinedForm_GetSize_def of_kind_def)
  from i h2 have i1: "sint (totalSize sm') = (\<Sum>r\<leftarrow>present (GetRecords ?d). sint (GetSize form_dm r))"
    and i2: "(\<Sum>kind\<in>dom (summary sm'). sint (the (summary sm' kind))) = sint (totalSize sm')"
    by blast+
  from i1 have i1': "sint (totalSize sm') = 16"
    by (simp add: form_dm_def SystemDefinedForm_GetSize_def)
  from GetSummary_additive[OF g2, of form_dm Summary_new]
  have "GetSummary (engine no_faults) form_tlv form_dm ''k'' Summary_new [(''k'', [])]
     = Inr (E_DB_ERROR, Summary_new)"
    by simp
  with r t' k1 k2 e i1' i2 show ?thesis by blast
qed

subsection \<open>Put, then Get\<close>

text \<open>Keys that extend a common prefix compare as their extensions do.\<close>

lemma append_less_append: "(k @ a < k @ b) = (a < (b :: 'a :: order list))"
  by (induction k) auto

lemma less_append_Cons: "k < k @ c # (u :: 'a :: order list)"
  by (induction k) auto

lemma kv_upsert_keys: "fst ` set (kv_upsert e s) = insert (fst e) (fst ` set s)"
  by (induction s) auto

lemma kv_upsert_state: "engine_state s \<Longrightarrow> engine_state (kv_upsert e s)"
  unfolding engine_state_def
proof (induction s)
  case Nil
  then show ?case by simp
next
  case (Cons x s)
  have keys: "set (map fst (kv_upsert e s)) = insert (fst e) (set (map fst s))"
    using kv_upsert_keys[of e s] by simp
  show ?case
  proof (cases "fst e < fst x")
    case True
    with Cons.prems show ?thesis by (auto intro: less_trans)
  next
    case False
    show ?thesis
    proof (cases "fst e = fst x")
      case True
      with Cons.prems show ?thesis by auto
    next
      case ne: False
      with False have "fst x < fst e" by simp
      with Cons ne False keys show ?thesis by auto
    qed
  qed
qed

lemma kv_upsert_map_of: "map_of (kv_upsert e s) = (map_of s)(fst e \<mapsto> snd e)"
  by (induction s) (auto simp: fun_eq_iff)

lemma fold_kv_upsert_state: "engine_state s \<Longrightarrow> engine_state (fold kv_upsert es s)"
  by (induction es arbitrary: s) (simp_all add: kv_upsert_state)

lemma fold_kv_upsert_map_of:
  "map_of (fold kv_upsert es s) k =
     (case map_of (rev es) k of None \<Rightarrow> map_of s k | Some v \<Rightarrow> Some v)"
  by (induction es arbitrary: s)
     (auto simp: kv_upsert_map_of map_of_append map_add_def split: option.splits)

lemma engine_state_filter: "engine_state s \<Longrightarrow> engine_state (filter (\<lambda>e. P (fst e)) s)"
  unfolding engine_state_def
  by (induction s) auto

lemma engine_state_invariant:
  "engine_state [] \<and>
   (engine_state s \<longrightarrow> engine_state (snd (engine_PutBatch flt es s))) \<and>
   (engine_state s \<longrightarrow> engine_state (snd (engine_DeleteBatch flt ks s)))"
proof (intro conjI impI)
  show "engine_state []" by (simp add: engine_state_def)
next
  assume "engine_state s"
  then show "engine_state (snd (engine_PutBatch flt es s))"
    by (simp add: engine_PutBatch_def Let_def fold_kv_upsert_state)
next
  assume "engine_state s"
  then show "engine_state (snd (engine_DeleteBatch flt ks s))"
    using engine_state_filter[of s "\<lambda>k. k \<notin> set ks"]
    by (simp add: engine_DeleteBatch_def Let_def)
qed

lemma map_of_filter_key:
  "map_of (filter (\<lambda>e. P (fst e)) s) k = (if P k then map_of s k else None)"
  by (induction s) auto

lemma engine_state_unique:
  assumes "engine_state xs" "engine_state ys" "map_of xs = map_of ys"
  shows "xs = ys"
proof -
  from assms(1,2) have sx: "sorted (map fst xs)" and dx: "distinct (map fst xs)"
    and sy: "sorted (map fst ys)" and dy: "distinct (map fst ys)"
    by (simp_all add: engine_state_def strict_sorted_iff)
  from dx dy assms(3) have eq: "set xs = set ys"
    by (simp add: map_of_inject_set)
  from dx have "inj_on fst (set xs)" by (simp add: distinct_map)
  with eq have "inj_on fst (set xs \<union> set ys)" by simp
  from map_sorted_distinct_set_unique[OF this sx dx sy dy eq] show ?thesis .
qed


lemma member_keys_state:
  assumes "sorted_wrt (<) (map uid recs)"
  shows "engine_state ((key, rb) # map (\<lambda>r. (key @ ''/'' @ uid r, val r)) recs)"
proof -
  have "sorted_wrt (<) (map (\<lambda>r. key @ ''/'' @ uid r) recs)"
    using assms by (simp add: sorted_wrt_map append_less_append)
  moreover have "\<forall>r\<in>set recs. key < key @ ''/'' @ uid r"
    by (simp add: less_append_Cons)
  ultimately show ?thesis
    by (simp add: engine_state_def comp_def)
qed

lemma scan_after_put:
  assumes st: "engine_state s"
    and srt: "sorted_wrt (<) (map uid recs)"
    and foreign: "\<forall>e\<in>set s. prefix key (fst e) \<longrightarrow>
                    fst e = key \<or> fst e \<in> (\<lambda>r. key @ ''/'' @ uid r) ` set recs"
  shows "filter (\<lambda>e. prefix key (fst e))
           (fold kv_upsert (map (\<lambda>r. (key @ ''/'' @ uid r, val r)) recs @ [(key, rb)]) s)
         = (key, rb) # map (\<lambda>r. (key @ ''/'' @ uid r, val r)) recs"
    (is "filter ?P (fold kv_upsert ?B s) = ?E")
proof (rule engine_state_unique)
  show "engine_state (filter ?P (fold kv_upsert ?B s))"
    by (intro engine_state_filter fold_kv_upsert_state st)
  show E: "engine_state ?E"
    using srt by (rule member_keys_state)
  have keysE: "fst ` set ?E = insert key ((\<lambda>r. key @ ''/'' @ uid r) ` set recs)"
    by (auto simp: image_iff)
  have dE: "distinct (map fst ?E)"
    using E by (simp add: engine_state_def strict_sorted_iff del: list.map)
  have dB: "distinct (map fst (rev ?B))"
    using dE by (simp add: rev_map[symmetric] distinct_rev)
  have "set (rev ?B) = set ?E" by auto
  with dB dE have same: "map_of (rev ?B) = map_of ?E"
    by (simp only: map_of_inject_set)
  show "map_of (filter ?P (fold kv_upsert ?B s)) = map_of ?E"
  proof
    fix k
    show "map_of (filter ?P (fold kv_upsert ?B s)) k = map_of ?E k"
    proof (cases "prefix key k")
      case True
      show ?thesis
      proof (cases "map_of ?E k")
        case None
        then have "k \<notin> fst ` set ?E" by (simp only: map_of_eq_None_iff simp_thms)
        with keysE have "k \<noteq> key" "k \<notin> (\<lambda>r. key @ ''/'' @ uid r) ` set recs" by auto
        with foreign True have "k \<notin> fst ` set s" by auto
        then have "map_of s k = None" by (simp only: map_of_eq_None_iff simp_thms)
        with None True same show ?thesis
          by (simp only: map_of_filter_key fold_kv_upsert_map_of if_True option.case)
      next
        case (Some v)
        with True same show ?thesis
          by (simp only: map_of_filter_key fold_kv_upsert_map_of if_True option.case)
      qed
    next
      case False
      have "k \<noteq> key" using False by auto
      moreover have "k \<notin> (\<lambda>r. key @ ''/'' @ uid r) ` set recs" using False by auto
      ultimately have "k \<notin> fst ` set ?E" unfolding keysE by simp
      then have "map_of ?E k = None" by (simp only: map_of_eq_None_iff simp_thms)
      with False show ?thesis
        by (simp only: map_of_filter_key if_False)
    qed
  qed
qed


lemma GetLoop_members:
  assumes "\<forall>r\<in>set recs. Reading_record tlv (val r) = Some r"
  shows "GetLoop tlv key (map (\<lambda>r. (key @ ''/'' @ uid r, val r)) recs) d
         = (E_OK, d\<lparr>GetRecords := GetRecords d @ map Some recs\<rparr>)"
  using assms by (induction recs arbitrary: d) auto


lemma engine_Put_ok:
  assumes "GetRuntime d = Some rt"
    and "Put (engine flt) tlv dm d s = Inr (E_OK, s')"
  shows "(\<forall>r. Some r \<in> set (GetRecords d) \<longrightarrow> Writing_record tlv r \<noteq> None)
       \<and> Writing_runtime tlv rt \<noteq> None
       \<and> s' = fold kv_upsert
                (map (\<lambda>r. (GetUnifiedKey dm rt @ ''/'' @ GetUid dm r, the (Writing_record tlv r)))
                   (present (GetRecords d))
                 @ [(GetUnifiedKey dm rt, the (Writing_runtime tlv rt))]) s"
  using assms(2) Put_unfold[OF assms(1), of "engine flt" tlv dm s]
  by (auto simp: Let_def engine_def engine_PutBatch_def split: if_splits)

text \<open>
  Claim C1, as stated, fails: \<^verbatim>\<open>Get\<close> appends the records in scan order, which is the
  order of their keys and so of their uids, not the order they had in the object. On an
  empty engine whose calls all succeed, with a codec that reads back what it wrote, an
  object with the records \<open>b\<close>, \<open>a\<close> is put with \<^verbatim>\<open>E_OK\<close> and read back with the
  records \<open>a\<close>, \<open>b\<close>.
\<close>

theorem Put_then_Get_reorders:
  "Put (engine no_faults) sample_tlv sample_dm (sample_data ''k'' [Some ''b'', Some ''a'']) []
     = Inr (E_OK, [(''k'', ''k''), (''k/a'', ''a''), (''k/b'', ''b'')]) \<and>
   Get (engine no_faults) sample_tlv (GetUnifiedKey sample_dm ''k'') UnifiedData_new
       [(''k'', ''k''), (''k/a'', ''a''), (''k/b'', ''b'')]
     = (E_OK, sample_data ''k'' [Some ''a'', Some ''b'']) \<and>
   GetRecords (sample_data ''k'' [Some ''a'', Some ''b''])
     \<noteq> GetRecords (sample_data ''k'' [Some ''b'', Some ''a''])"
  by (simp add: Put_def Get_def GetEntries_def engine_def engine_PutBatch_def
        engine_GetEntries_def no_faults_def sample_data_def sample_tlv_def sample_dm_def
        UnifiedData_new_def Let_def)

text \<open>
  An entry left under the key by an earlier object is read back as well: the engine state
  matters too.
\<close>

lemma stale_member_is_read_back:
  "Put (engine no_faults) sample_tlv sample_dm (sample_data ''k'' [Some ''a'']) [(''k/z'', ''z'')]
     = Inr (E_OK, [(''k'', ''k''), (''k/a'', ''a''), (''k/z'', ''z'')]) \<and>
   Get (engine no_faults) sample_tlv ''k'' UnifiedData_new
       [(''k'', ''k''), (''k/a'', ''a''), (''k/z'', ''z'')]
     = (E_OK, sample_data ''k'' [Some ''a'', Some ''z''])"
  by (simp add: Put_def Get_def GetEntries_def engine_def engine_PutBatch_def
        engine_GetEntries_def no_faults_def sample_data_def sample_tlv_def sample_dm_def
        UnifiedData_new_def Let_def)

text \<open>
  Claim C1, amended. Let \<open>d\<close> be a \<^verbatim>\<open>UnifiedData\<close> with its runtime set, a non-empty
  record sequence and no null records, whose record uids are strictly increasing in the
  bytewise lexicographic order of the engine's keys, and let the codec read back the
  runtime block and the records of \<open>d\<close> from what it writes for them. Let the engine
  state hold no entry under the unified key of \<open>d\<close> other than entries that \<^verbatim>\<open>Put\<close>
  overwrites. When \<^verbatim>\<open>Put\<close> returns \<^verbatim>\<open>E_OK\<close> and the scan of the following \<^verbatim>\<open>Get\<close>
  succeeds, \<^verbatim>\<open>Get\<close> of the unified key, into an empty object, returns \<^verbatim>\<open>E_OK\<close> and the
  object \<open>d\<close>: the same runtime and the same records in the same order.
\<close>

theorem Put_then_Get:
  assumes rt: "GetRuntime d = Some rt"
    and recs: "GetRecords d = map Some recs" and nonempty: "recs \<noteq> []"
    and uids: "sorted_wrt (<) (map (GetUid dm) recs)"
    and st: "engine_state s"
    and foreign: "\<forall>e\<in>set s. prefix (GetUnifiedKey dm rt) (fst e) \<longrightarrow>
                    fst e = GetUnifiedKey dm rt
                    \<or> fst e \<in> (\<lambda>r. GetUnifiedKey dm rt @ ''/'' @ GetUid dm r) ` set recs"
    and rt_codec: "\<forall>v. Writing_runtime tlv rt = Some v \<longrightarrow> Reading_runtime tlv v = Some rt"
    and rec_codec: "\<forall>r\<in>set recs. \<forall>v. Writing_record tlv r = Some v
                      \<longrightarrow> Reading_record tlv v = Some r"
    and put: "Put (engine flt) tlv dm d s = Inr (E_OK, s')"
    and scan: "scan_status flt (GetUnifiedKey dm rt) s' = DB_OK"
  shows "Get (engine flt) tlv (GetUnifiedKey dm rt) UnifiedData_new s' = (E_OK, d)"
proof -
  let ?key = "GetUnifiedKey dm rt"
  let ?val = "\<lambda>r. the (Writing_record tlv r)"
  let ?rb = "the (Writing_runtime tlv rt)"
  let ?E = "(?key, ?rb) # map (\<lambda>r. (?key @ ''/'' @ GetUid dm r, ?val r)) recs"
  from engine_Put_ok[OF rt put] recs
  have enc: "\<forall>r\<in>set recs. Writing_record tlv r \<noteq> None"
    and enc_rt: "Writing_runtime tlv rt \<noteq> None"
    and s': "s' = fold kv_upsert
                (map (\<lambda>r. (?key @ ''/'' @ GetUid dm r, ?val r)) recs @ [(?key, ?rb)]) s"
    by (auto simp: present_map_Some)
  have "filter (\<lambda>e. prefix ?key (fst e)) s' = ?E"
    unfolding s' using st uids foreign by (rule scan_after_put)
  with scan have entries: "GetEntries (engine flt) ?key s' = ?E"
    by (simp add: GetEntries_def engine_def engine_GetEntries_def)
  from enc_rt rt_codec have r1: "Reading_runtime tlv ?rb = Some rt" by auto
  from enc rec_codec have r2: "\<forall>r\<in>set recs. Reading_record tlv (?val r) = Some r" by auto
  have "GetLoop tlv ?key ?E UnifiedData_new
        = (E_OK, \<lparr>GetRuntime = Some rt, GetRecords = map Some recs\<rparr>)"
    using r1 GetLoop_members[OF r2, of ?key "GetUid dm"]
    by (simp add: UnifiedData_new_def)
  moreover have "d = \<lparr>GetRuntime = Some rt, GetRecords = map Some recs\<rparr>"
    using rt recs by simp
  ultimately show ?thesis using entries
    by (simp add: Get_def)
qed


theorem Put_then_Get_witness:
  "Put (engine no_faults) sample_tlv sample_dm (sample_data ''k'' [Some ''a'', Some ''b''])
       [(''j'', ''x''), (''k'', ''old'')]
     = Inr (E_OK, [(''j'', ''x''), (''k'', ''k''), (''k/a'', ''a''), (''k/b'', ''b'')]) \<and>
   Get (engine no_faults) sample_tlv ''k'' UnifiedData_new
       [(''j'', ''x''), (''k'', ''k''), (''k/a'', ''a''), (''k/b'', ''b'')]
     = (E_OK, sample_data ''k'' [Some ''a'', Some ''b''])"
proof -
  let ?d = "sample_data ''k'' [Some ''a'', Some ''b'']"
  let ?s = "[(''j'', ''x''), (''k'', ''old'')]"
  let ?s' = "[(''j'', ''x''), (''k'', ''k''), (''k/a'', ''a''), (''k/b'', ''b'')]"
  have rt: "GetRuntime ?d = Some ''k''" by (simp add: sample_data_def)
  have recs: "GetRecords ?d = map Some [''a'', ''b'']" by (simp add: sample_data_def)
  have nonempty: "[''a'', ''b''] \<noteq> ([] :: string list)" by simp
  have uids: "sorted_wrt (<) (map (GetUid sample_dm) [''a'', ''b''])"
    by (simp add: sample_dm_def)
  have st: "engine_state ?s" by (simp add: engine_state_def)
  have foreign: "\<forall>e\<in>set ?s. prefix (GetUnifiedKey sample_dm ''k'') (fst e) \<longrightarrow>
                    fst e = GetUnifiedKey sample_dm ''k''
                    \<or> fst e \<in> (\<lambda>r. GetUnifiedKey sample_dm ''k'' @ ''/'' @ GetUid sample_dm r)
                                ` set [''a'', ''b'']"
    by (simp add: sample_dm_def)
  have rt_codec: "\<forall>v. Writing_runtime sample_tlv ''k'' = Some v
                    \<longrightarrow> Reading_runtime sample_tlv v = Some ''k''"
    by (simp add: sample_tlv_def)
  have rec_codec: "\<forall>r\<in>set [''a'', ''b'']. \<forall>v. Writing_record sample_tlv r = Some v
                      \<longrightarrow> Reading_record sample_tlv v = Some r"
    by (simp add: sample_tlv_def)
  have put: "Put (engine no_faults) sample_tlv sample_dm ?d ?s = Inr (E_OK, ?s')"
    by (simp add: Put_def engine_def engine_PutBatch_def no_faults_def sample_data_def
          sample_tlv_def sample_dm_def Let_def)
  have scan: "scan_status no_faults (GetUnifiedKey sample_dm ''k'') ?s' = DB_OK"
    by (simp add: no_faults_def)
  have key: "GetUnifiedKey sample_dm ''k'' = ''k''" by (simp add: sample_dm_def)
  from Put_then_Get[OF rt recs nonempty uids st foreign rt_codec rec_codec put scan] key put
  show ?thesis by simp
qed

end
